theory Spec2Isabelle
  imports Complex_Main
begin

section \<open>Python strings\<close>

text \<open>
  A Python \<open>str\<close> is modelled as a \<open>char list\<close> in which every \<open>char\<close> stands for the
  code point of the same number. The model therefore covers the texts whose code points
  are below 256 (ASCII and Latin-1); \<open>length\<close> counts code points, as \<open>len\<close> does.
\<close>

definition cp :: "char \<Rightarrow> nat" where
  "cp c = of_char c"

definition between :: "nat \<Rightarrow> nat \<Rightarrow> char \<Rightarrow> bool" where
  "between lo hi c = (lo \<le> cp c \<and> cp c \<le> hi)"

definition is_space :: "char \<Rightarrow> bool" where
  \<comment> \<open>\<open>str.isspace\<close> and the class \<open>\s\<close> of a str pattern\<close>
  "is_space c = (between 9 13 c \<or> between 28 32 c \<or> cp c = 133 \<or> cp c = 160)"

definition is_digit :: "char \<Rightarrow> bool" where
  \<comment> \<open>the class \<open>\d\<close>: the decimal digits; below 256 these are 0-9\<close>
  "is_digit c = between 48 57 c"

definition is_upper :: "char \<Rightarrow> bool" where
  \<comment> \<open>\<open>c.isupper()\<close> for one character\<close>
  "is_upper c = (between 65 90 c \<or> (between 192 222 c \<and> cp c \<noteq> 215))"

definition is_lower_cased :: "char \<Rightarrow> bool" where
  \<comment> \<open>the lower-case letters that have an upper-case partner below 256\<close>
  "is_lower_cased c = (between 97 122 c \<or> (between 224 254 c \<and> cp c \<noteq> 247))"

definition is_alpha :: "char \<Rightarrow> bool" where
  \<comment> \<open>\<open>c.isalpha()\<close>\<close>
  "is_alpha c = (between 65 90 c \<or> between 97 122 c \<or> cp c = 170 \<or> cp c = 181 \<or> cp c = 186
      \<or> between 192 214 c \<or> between 216 246 c \<or> between 248 255 c)"

definition is_word :: "char \<Rightarrow> bool" where
  \<comment> \<open>the class \<open>\w\<close> of a str pattern: \<open>c.isalnum()\<close> or the underscore\<close>
  "is_word c = (is_alpha c \<or> is_digit c \<or> cp c = 95 \<or> cp c = 178 \<or> cp c = 179 \<or> cp c = 185
      \<or> between 188 190 c)"

definition lower_chr :: "char \<Rightarrow> char" where
  "lower_chr c = (if is_upper c then char_of (cp c + 32) else c)"

definition upper_chr :: "char \<Rightarrow> char" where
  \<comment> \<open>\<open>str.upper\<close> sends three characters below 256 out of that range (181, 223, 255); the
     program upper-cases only regex captures made of ASCII letters, digits, hyphens and
     white space, where they cannot occur, and the model leaves them unchanged.\<close>
  "upper_chr c = (if is_lower_cased c then char_of (cp c - 32) else c)"

definition lower :: "string \<Rightarrow> string" where
  "lower s = map lower_chr s"

definition upper :: "string \<Rightarrow> string" where
  "upper s = map upper_chr s"

fun startswith :: "string \<Rightarrow> string \<Rightarrow> bool" where
  \<comment> \<open>\<open>s.startswith(k)\<close>, written \<open>startswith k s\<close>\<close>
  "startswith [] s = True"
| "startswith (a # k) [] = False"
| "startswith (a # k) (c # s) = (if a = c then startswith k s else False)"

fun substr_in :: "string \<Rightarrow> string \<Rightarrow> bool" where
  \<comment> \<open>\<open>k in s\<close> on strings\<close>
  "substr_in k [] = (k = [])"
| "substr_in k (c # s) = (if startswith k (c # s) then True else substr_in k s)"

definition endswith :: "string \<Rightarrow> string \<Rightarrow> bool" where
  "endswith k s = startswith (rev k) (rev s)"

definition strip :: "string \<Rightarrow> string" where
  "strip s = rev (dropWhile is_space (rev (dropWhile is_space s)))"

fun join :: "string \<Rightarrow> string list \<Rightarrow> string" where
  \<comment> \<open>\<open>sep.join(xs)\<close>\<close>
  "join sep [] = []"
| "join sep [x] = x"
| "join sep (x # y # xs) = x @ sep @ join sep (y # xs)"

definition digit_chr :: "nat \<Rightarrow> char" where
  "digit_chr d = char_of (48 + d)"

fun str_nat :: "nat \<Rightarrow> string" where
  "str_nat n = (if n < 10 then [digit_chr n] else str_nat (n div 10) @ [digit_chr (n mod 10)])"

declare str_nat.simps [simp del]

definition str_int :: "int \<Rightarrow> string" where
  \<comment> \<open>\<open>str(i)\<close>, as an f-string formats an int\<close>
  "str_int i = (if i < 0 then CHR ''-'' # str_nat (nat (- i)) else str_nat (nat i))"


section \<open>Regular expressions\<close>

text \<open>
  The patterns of the program are kept as data and run by a backtracking matcher that
  tries the alternatives in the order of Python's \<open>re\<close>: the left branch of \<open>|\<close> first, a
  greedy repetition longest first, a lazy one shortest first. Every quantifier of the
  program's patterns stands on a single-character item, so \<open>Rep\<close> repeats a character
  set. \<open>ic\<close> is the flag \<open>re.I\<close>.
\<close>

datatype citem = Ch char | Rng char char | CDigit | CSpace

datatype cset = Dot | Set "citem list"

datatype regex =
    One cset
  | Rep cset nat "nat option" bool
  | Seq regex regex
  | Alt regex regex
  | Grp nat regex
  | WordB
  | Bol
  | Eol
  | Eps

fun in_citem :: "bool \<Rightarrow> citem \<Rightarrow> char \<Rightarrow> bool" where
  "in_citem ic (Ch a) c = (c = a \<or> (ic \<and> lower_chr c = lower_chr a))"
| "in_citem ic (Rng a b) c =
     (between (cp a) (cp b) c
      \<or> (ic \<and> (between (cp a) (cp b) (lower_chr c) \<or> between (cp a) (cp b) (upper_chr c))))"
| "in_citem ic CDigit c = is_digit c"
| "in_citem ic CSpace c = is_space c"

fun in_cset :: "bool \<Rightarrow> cset \<Rightarrow> char \<Rightarrow> bool" where
  "in_cset ic Dot c = (c \<noteq> CHR 0x0A)"
| "in_cset ic (Set items) c = list_ex (\<lambda>it. in_citem ic it c) items"

definition hi_open :: "nat option \<Rightarrow> bool" where
  "hi_open hi = (hi \<noteq> Some 0)"

definition hi_dec :: "nat option \<Rightarrow> nat option" where
  "hi_dec hi = map_option (\<lambda>h. h - 1) hi"

fun rep_greedy :: "bool \<Rightarrow> cset \<Rightarrow> nat \<Rightarrow> nat option \<Rightarrow> char option \<Rightarrow> string
    \<Rightarrow> (char option \<Rightarrow> string \<Rightarrow> 'a option) \<Rightarrow> 'a option" where
  "rep_greedy ic cs lo hi p [] k = (if lo = 0 then k p [] else None)"
| "rep_greedy ic cs lo hi p (c # s) k =
     (if hi_open hi \<and> in_cset ic cs c
      then (case rep_greedy ic cs (lo - 1) (hi_dec hi) (Some c) s k of
              Some r \<Rightarrow> Some r
            | None \<Rightarrow> (if lo = 0 then k p (c # s) else None))
      else (if lo = 0 then k p (c # s) else None))"

fun rep_lazy :: "bool \<Rightarrow> cset \<Rightarrow> nat \<Rightarrow> nat option \<Rightarrow> char option \<Rightarrow> string
    \<Rightarrow> (char option \<Rightarrow> string \<Rightarrow> 'a option) \<Rightarrow> 'a option" where
  "rep_lazy ic cs lo hi p [] k = (if lo = 0 then k p [] else None)"
| "rep_lazy ic cs lo hi p (c # s) k =
     (case (if lo = 0 then k p (c # s) else None) of
        Some r \<Rightarrow> Some r
      | None \<Rightarrow> (if hi_open hi \<and> in_cset ic cs c
                 then rep_lazy ic cs (lo - 1) (hi_dec hi) (Some c) s k else None))"

definition word_boundary :: "char option \<Rightarrow> string \<Rightarrow> bool" where
  \<comment> \<open>\<open>\b\<close>: exactly one of the characters before and after the position is a word character\<close>
  "word_boundary p s =
     ((case p of None \<Rightarrow> False | Some c \<Rightarrow> is_word c)
      \<noteq> (case s of [] \<Rightarrow> False | c # _ \<Rightarrow> is_word c))"

type_synonym groups = "(nat \<times> string) list"

fun rmatch :: "bool \<Rightarrow> regex \<Rightarrow> char option \<Rightarrow> string \<Rightarrow> groups
    \<Rightarrow> (char option \<Rightarrow> string \<Rightarrow> groups \<Rightarrow> 'a option) \<Rightarrow> 'a option" where
  "rmatch ic (One cs) p s g k =
     (case s of [] \<Rightarrow> None | c # s' \<Rightarrow> if in_cset ic cs c then k (Some c) s' g else None)"
| "rmatch ic (Rep cs lo hi greedy) p s g k =
     (if greedy then rep_greedy ic cs lo hi p s (\<lambda>p' s'. k p' s' g)
      else rep_lazy ic cs lo hi p s (\<lambda>p' s'. k p' s' g))"
| "rmatch ic (Seq a b) p s g k = rmatch ic a p s g (\<lambda>p' s' g'. rmatch ic b p' s' g' k)"
| "rmatch ic (Alt a b) p s g k =
     (case rmatch ic a p s g k of Some r \<Rightarrow> Some r | None \<Rightarrow> rmatch ic b p s g k)"
| "rmatch ic (Grp n r) p s g k =
     rmatch ic r p s g (\<lambda>p' s' g'. k p' s' ((n, take (length s - length s') s) # g'))"
| "rmatch ic WordB p s g k = (if word_boundary p s then k p s g else None)"
| "rmatch ic Bol p s g k = (if p = None then k p s g else None)"
| "rmatch ic Eol p s g k = (if s = [] \<or> s = [CHR 0x0A] then k p s g else None)"
| "rmatch ic Eps p s g k = k p s g"

text \<open>A match object: where the match starts and ends, and the captured groups.\<close>

record rmatch_obj =
  m_start :: nat
  m_end :: nat
  m_groups :: groups

definition match_here :: "bool \<Rightarrow> regex \<Rightarrow> char option \<Rightarrow> string \<Rightarrow> (nat \<times> groups) option" where
  \<comment> \<open>the length and the groups of the first match that starts at this position\<close>
  "match_here ic r p s = rmatch ic r p s [] (\<lambda>p' s' g. Some (length s - length s', g))"

fun search_from :: "bool \<Rightarrow> regex \<Rightarrow> char option \<Rightarrow> string \<Rightarrow> nat \<Rightarrow> rmatch_obj option" where
  "search_from ic r p [] i =
     (case match_here ic r p [] of
        Some (n, g) \<Rightarrow> Some \<lparr>m_start = i, m_end = i + n, m_groups = g\<rparr>
      | None \<Rightarrow> None)"
| "search_from ic r p (c # s) i =
     (case match_here ic r p (c # s) of
        Some (n, g) \<Rightarrow> Some \<lparr>m_start = i, m_end = i + n, m_groups = g\<rparr>
      | None \<Rightarrow> search_from ic r (Some c) s (Suc i))"

definition re_search :: "bool \<Rightarrow> regex \<Rightarrow> string \<Rightarrow> rmatch_obj option" where
  \<comment> \<open>\<open>re.search\<close>: the leftmost match\<close>
  "re_search ic r s = search_from ic r None s 0"

definition re_match :: "bool \<Rightarrow> regex \<Rightarrow> string \<Rightarrow> rmatch_obj option" where
  \<comment> \<open>\<open>re.match\<close>: a match at the start of the string only\<close>
  "re_match ic r s =
     (case match_here ic r None s of
        Some (n, g) \<Rightarrow> Some \<lparr>m_start = 0, m_end = n, m_groups = g\<rparr>
      | None \<Rightarrow> None)"

definition group0 :: "string \<Rightarrow> rmatch_obj \<Rightarrow> string" where
  \<comment> \<open>\<open>m.group(0)\<close> of a match in \<open>s\<close>\<close>
  "group0 s m = take (m_end m - m_start m) (drop (m_start m) s)"

definition group :: "nat \<Rightarrow> rmatch_obj \<Rightarrow> string" where
  \<comment> \<open>\<open>m.group(n)\<close>; every group read by the program takes part in every match\<close>
  "group n m = (case map_of (m_groups m) n of Some t \<Rightarrow> t | None \<Rightarrow> [])"

definition re_split1 :: "bool \<Rightarrow> regex \<Rightarrow> string \<Rightarrow> string list" where
  \<comment> \<open>\<open>re.split(r, s, maxsplit=1)\<close> for a pattern without groups\<close>
  "re_split1 ic r s =
     (case re_search ic r s of
        None \<Rightarrow> [s]
      | Some m \<Rightarrow> [take (m_start m) s, drop (m_end m) s])"

function sub_from :: "bool \<Rightarrow> regex \<Rightarrow> string \<Rightarrow> char option \<Rightarrow> string \<Rightarrow> string" where
  "sub_from ic r repl p s =
     (case match_here ic r p s of
        Some (n, g) \<Rightarrow>
          (if 0 < n \<and> n \<le> length s
           then repl @ sub_from ic r repl (Some (s ! (n - 1))) (drop n s)
           else (case s of [] \<Rightarrow> repl | c # s' \<Rightarrow> repl @ c # sub_from ic r repl (Some c) s'))
      | None \<Rightarrow> (case s of [] \<Rightarrow> [] | c # s' \<Rightarrow> c # sub_from ic r repl (Some c) s'))"
  by pat_completeness auto
termination
  by (relation "measure (\<lambda>(ic, r, repl, p, s). length s)") auto

declare sub_from.simps [simp del]

definition re_sub :: "bool \<Rightarrow> regex \<Rightarrow> string \<Rightarrow> string \<Rightarrow> string" where
  \<comment> \<open>\<open>re.sub(r, repl, s)\<close>: every match, left to right, replaced\<close>
  "re_sub ic r repl s = sub_from ic r repl None s"

definition lit :: "string \<Rightarrow> regex" where
  \<comment> \<open>a run of literal characters of a pattern\<close>
  "lit s = foldr (\<lambda>c r. Seq (One (Set [Ch c])) r) s Eps"

definition seqs :: "regex list \<Rightarrow> regex" where
  "seqs rs = foldr Seq rs Eps"

fun alts :: "regex list \<Rightarrow> regex" where
  \<comment> \<open>\<open>a|b|c\<close>\<close>
  "alts [] = Eps"
| "alts [r] = r"
| "alts (r # r' # rs) = Alt r (alts (r' # rs))"

section \<open>The pattern library\<close>

definition AZ :: cset where
  "AZ = Set [Rng CHR ''A'' CHR ''Z'']"

definition digit :: cset where
  "digit = Set [CDigit]"

definition space :: cset where
  "space = Set [CSpace]"

definition postcode_pattern :: regex where
  \<comment> \<open>\<open>[A-Z]{1,2}\d[A-Z\d]?\s*\d[A-Z]{2}\<close>\<close>
  "postcode_pattern = seqs [Rep AZ 1 (Some 2) True, One digit,
     Rep (Set [Rng CHR ''A'' CHR ''Z'', CDigit]) 0 (Some 1) True,
     Rep space 0 None True, One digit, Rep AZ 2 (Some 2) True]"

definition POSTCODE_RE :: regex where
  \<comment> \<open>\<open>\b([A-Z]{1,2}\d[A-Z\d]?\s*\d[A-Z]{2})\b\<close>, with \<open>re.I\<close>\<close>
  "POSTCODE_RE = seqs [WordB, Grp 1 postcode_pattern, WordB]"

definition EMAIL_RE :: regex where
  \<comment> \<open>\<open>\b[A-Z0-9._%+-]+@[A-Z0-9.-]+\.[A-Z]{2,}\b\<close>, with \<open>re.I\<close>\<close>
  "EMAIL_RE = seqs [WordB,
     Rep (Set [Rng CHR ''A'' CHR ''Z'', Rng CHR ''0'' CHR ''9'', Ch CHR ''.'', Ch CHR ''_'',
               Ch CHR ''%'', Ch CHR ''+'', Ch CHR ''-'']) 1 None True,
     One (Set [Ch CHR ''@'']),
     Rep (Set [Rng CHR ''A'' CHR ''Z'', Rng CHR ''0'' CHR ''9'', Ch CHR ''.'', Ch CHR ''-''])
       1 None True,
     One (Set [Ch CHR ''.'']), Rep AZ 2 None True, WordB]"

definition PHONE_RE :: regex where
  \<comment> \<open>\<open>\b(\+?\d[\d\s().-]{8,}\d)\b\<close>\<close>
  "PHONE_RE = seqs [WordB,
     Grp 1 (seqs [Rep (Set [Ch CHR ''+'']) 0 (Some 1) True, One digit,
       Rep (Set [CDigit, CSpace, Ch CHR ''('', Ch CHR '')'', Ch CHR ''.'', Ch CHR ''-''])
         8 None True,
       One digit]),
     WordB]"

definition APPREF_RE :: regex where
  \<comment> \<open>\<open>\b(PP-\d{6,}|20\d{6,}[A-Z]{1,3})\b\<close>, with \<open>re.I\<close>\<close>
  "APPREF_RE = seqs [WordB,
     Grp 1 (Alt (seqs [lit ''PP-'', Rep digit 6 None True])
                (seqs [lit ''20'', Rep digit 6 None True, Rep AZ 1 (Some 3) True])),
     WordB]"

definition date_sep :: cset where
  "date_sep = Set [Ch CHR ''.'', Ch CHR ''/'', Ch CHR ''-'']"

definition DATE_LIKE :: regex where
  \<comment> \<open>\<open>\b\d{1,2}[./-]\d{1,2}[./-]\d{2,4}\b\<close>\<close>
  "DATE_LIKE = seqs [WordB, Rep digit 1 (Some 2) True, One date_sep,
     Rep digit 1 (Some 2) True, One date_sep, Rep digit 2 (Some 4) True, WordB]"

definition ADDRESS_LIKE :: regex where
  \<comment> \<open>\<open>^\s*\d+\s+[A-Z0-9'\- ]{4,}$\<close>; the class also lists the right single quotation
     mark U+2019, which no text of the model contains\<close>
  "ADDRESS_LIKE = seqs [Bol, Rep space 0 None True, Rep digit 1 None True,
     Rep space 1 None True,
     Rep (Set [Rng CHR ''A'' CHR ''Z'', Rng CHR ''0'' CHR ''9'', Ch CHR 0x27, Ch CHR ''-'',
               Ch CHR '' '']) 4 None True,
     Eol]"

definition PROPOSAL_HINTS :: regex where
  \<comment> \<open>\<open>\b(PROPOS|DEVELOPMENT|CONVERSION|USE|HMO|EXTENSION|LOFT|DORMER)\b\<close>, with \<open>re.I\<close>\<close>
  "PROPOSAL_HINTS = seqs [WordB,
     Grp 1 (alts [lit ''PROPOS'', lit ''DEVELOPMENT'', lit ''CONVERSION'', lit ''USE'',
                  lit ''HMO'', lit ''EXTENSION'', lit ''LOFT'', lit ''DORMER'']),
     WordB]"

definition LABEL_PATTERNS :: "(string \<times> regex list) list" where
  "LABEL_PATTERNS =
    [(''site_address'', [lit ''site address'', lit ''address of site'', lit ''site location'']),
     (''proposal_description'', [lit ''proposal'', lit ''description of development'',
        lit ''proposed development'', lit ''what are you proposing'']),
     (''applicant_name'', [lit ''applicant name'', lit ''name of applicant'', lit ''first name'',
        lit ''surname'']),
     (''agent_name'', [lit ''agent name'', lit ''name of agent'']),
     (''proposed_use'', [lit ''i/we hereby apply for prior approval'', lit ''prior approval for'',
        lit ''declaration''])]"

definition ws0 :: regex where
  \<comment> \<open>\<open>\s*\<close>\<close>
  "ws0 = Rep space 0 None True"

definition scale_hint :: "string \<Rightarrow> regex" where
  \<comment> \<open>a hint of the form \<open>\b1:1250\b\<close>\<close>
  "scale_hint s = seqs [WordB, lit s, WordB]"

definition DOC_TYPE_HINTS :: "(string \<times> regex list) list" where
  "DOC_TYPE_HINTS =
    [(''application_form'', [lit ''application form'', lit ''planning application'',
        lit ''town and country planning'', lit ''planning portal reference'',
        lit ''application to determine if prior approval'',
        lit ''i/we hereby apply for prior approval'', lit ''prior approval'']),
     (''site_notice'', [lit ''statement of display of a site notice'',
        lit ''site notice of application'', lit ''site notice'', lit ''notice of application'']),
     (''site_plan'', [seqs [lit ''location'', ws0, lit ''&'', ws0, lit ''block'', ws0, lit ''plan''],
        lit ''location plan'', lit ''block plan'', scale_hint ''1:1250'', scale_hint ''1:500'',
        scale_hint ''1:2500'']),
     (''drawing'', [lit ''existing'', lit ''proposed'', lit ''elevation'', lit ''floor plan'',
        lit ''section'']),
     (''design_statement'', [lit ''design and access statement'',
        seqs [lit ''design'', ws0, lit ''&'', ws0, lit ''access'']]),
     (''heritage'', [lit ''heritage statement'', lit ''listed building'',
        lit ''conservation area''])]"


section \<open>Text blocks and evidence\<close>

text \<open>
  A text block is a dict; a key it may lack is an \<open>option\<close>. The values are a str for
  \<open>content\<close> and \<open>text\<close> and an int for \<open>page_number\<close>, \<open>page\<close> and \<open>index\<close>
  (the fields carry the prefix \<open>b_\<close>).
\<close>

record block =
  b_content :: "string option"
  b_text :: "string option"
  b_page_number :: "int option"
  b_page :: "int option"
  b_index :: "int option"

definition block_text :: "block \<Rightarrow> string" where
  \<comment> \<open>\<open>b.get("content", b.get("text", ""))\<close>\<close>
  "block_text b = (case b_content b of Some c \<Rightarrow> c
                   | None \<Rightarrow> (case b_text b of Some t \<Rightarrow> t | None \<Rightarrow> []))"

definition block_page :: "block \<Rightarrow> int" where
  \<comment> \<open>\<open>int(b.get("page_number", b.get("page", 0)))\<close>\<close>
  "block_page b = (case b_page_number b of Some n \<Rightarrow> n
                   | None \<Rightarrow> (case b_page b of Some n \<Rightarrow> n | None \<Rightarrow> 0))"

definition block_id_of :: "block \<Rightarrow> string" where
  \<comment> \<open>\<open>f"p{page_num}b{b.get('index', '')}"\<close>\<close>
  "block_id_of b = ''p'' @ str_int (block_page b) @ ''b''
      @ (case b_index b of Some i \<Rightarrow> str_int i | None \<Rightarrow> [])"

definition norm :: "string \<Rightarrow> string" where
  \<comment> \<open>\<open>_norm\<close>: \<open>re.sub(r"\s+", " ", s).strip()\<close>\<close>
  "norm s = strip (re_sub False (Rep space 1 None True) '' '' s)"

record ev_entry =
  ev_page :: int
  ev_block_id :: string
  ev_snippet :: string
  ev_confidence :: rat
  ev_source_doc_type :: "string option"

type_synonym evidence = "(string \<times> ev_entry list) list"

definition add_ev :: "evidence \<Rightarrow> string \<Rightarrow> int \<Rightarrow> string \<Rightarrow> string \<Rightarrow> rat \<Rightarrow> string option
    \<Rightarrow> evidence" where
  \<comment> \<open>\<open>_add_ev\<close>: \<open>ev.setdefault(field, []).append({...})\<close>\<close>
  "add_ev ev field pg bid snippet conf sdt =
     (let e = \<lparr>ev_page = pg, ev_block_id = bid, ev_snippet = take 240 (norm snippet),
               ev_confidence = conf, ev_source_doc_type = sdt\<rparr>
      in case map_of ev field of
           None \<Rightarrow> ev @ [(field, [e])]
         | Some es \<Rightarrow> map (\<lambda>(k, v). if k = field then (k, v @ [e]) else (k, v)) ev)"

definition looks_like_allcaps :: "string \<Rightarrow> bool" where
  "looks_like_allcaps s =
     (let letters = filter is_alpha s in
      if length letters < 8 then False
      else (let upp = length (filter is_upper letters)
            in 0.8 < (of_nat upp :: rat) / of_nat (max 1 (length letters))))"

definition is_noise :: "string \<Rightarrow> bool" where
  "is_noise s =
     (let sl = lower s in
      list_ex (\<lambda>k. substr_in k sl)
        [''copyright'', ''notes:'', ''scale'', ''printed on'', ''os 1000'', ''disclaimer'',
         ''this drawing'', ''for information only''])"

definition is_council_contact :: "string \<Rightarrow> bool" where
  "is_council_contact s =
     (let sl = lower s in
      list_ex (\<lambda>k. substr_in k sl)
        [''birmingham.gov.uk'', ''planning.registration'', ''council'', ''local authority'',
         ''planning department'', ''planning@'', ''0121 464'', ''po box''])"

definition is_in_site_location_section :: "block list \<Rightarrow> nat \<Rightarrow> bool" where
  \<comment> \<open>the blocks \<open>max(0, block_index - 10) .. block_index - 1\<close>; every caller passes the
     index of a block of the list, so each \<open>blocks[i]\<close> is in range\<close>
  "is_in_site_location_section blocks block_index =
     list_ex (\<lambda>b. let t = lower (norm (block_text b)) in
               list_ex (\<lambda>header. substr_in header t)
                 [''site location'', ''site address'', ''address of site'', ''location of site'',
                  ''property address''])
       (drop (block_index - 10) (take block_index blocks))"

definition looks_like_phone :: "string \<Rightarrow> bool" where
  "looks_like_phone s = (re_search False DATE_LIKE s = None)"

section \<open>Field extractors\<close>

text \<open>
  An extractor of the source returns either \<open>(None, None, 0.0)\<close> or a value together
  with the block it was read from and a confidence; the model returns \<open>None\<close> for the
  first and \<open>Some (value, block, confidence)\<close> for the second. \<open>truthy\<close> is the truth
  value Python gives an optional string: \<open>None\<close> and the empty string are false.
\<close>

type_synonym pick = "(string \<times> block \<times> rat) option"

definition truthy :: "string option \<Rightarrow> bool" where
  "truthy v = (case v of None \<Rightarrow> False | Some s \<Rightarrow> s \<noteq> [])"

definition enumerate_list :: "'a list \<Rightarrow> (nat \<times> 'a) list" where
  \<comment> \<open>\<open>enumerate(xs)\<close>\<close>
  "enumerate_list xs = zip [0..<length xs] xs"

fun first_some :: "('a \<Rightarrow> 'b option) \<Rightarrow> 'a list \<Rightarrow> ('a \<times> 'b) option" where
  \<comment> \<open>a \<open>for\<close> loop that leaves at its first hit: the element and what was found there\<close>
  "first_some f [] = None"
| "first_some f (x # xs) = (case f x of Some y \<Rightarrow> Some (x, y) | None \<Rightarrow> first_some f xs)"

definition split_colon :: "string \<Rightarrow> string list" where
  \<comment> \<open>\<open>re.split(r":", t, maxsplit=1)\<close>\<close>
  "split_colon t = re_split1 False (lit '':'') t"

definition section_headers :: "string list" where
  "section_headers = [''site location'', ''site address'', ''address of site'', ''property address'']"

record addr_parts =
  property_name :: "string option"
  address_line1 :: "string option"
  address_line2 :: "string option"
  town_city :: "string option"
  postcode :: "string option"

definition labelled_value :: "string \<Rightarrow> string option \<Rightarrow> string option" where
  \<comment> \<open>\<open>parts = re.split(r":", t, maxsplit=1); if len(parts) == 2: x = _norm(parts[1])\<close>\<close>
  "labelled_value t old = (case split_colon t of [_, v] \<Rightarrow> Some (norm v) | _ \<Rightarrow> old)"

definition postcode_in :: "string \<Rightarrow> string option \<Rightarrow> string option" where
  \<comment> \<open>\<open>m = POSTCODE_RE.search(s); if m: postcode = m.group(1).upper()\<close>\<close>
  "postcode_in s old =
     (case re_search True POSTCODE_RE s of Some m \<Rightarrow> Some (upper (group 1 m)) | None \<Rightarrow> old)"

definition section_labels :: "string \<Rightarrow> string \<Rightarrow> addr_parts \<Rightarrow> addr_parts" where
  \<comment> \<open>the five \<open>label: value\<close> tests of one block of the section\<close>
  "section_labels t t_l st =
     (let st1 = (if substr_in ''property name'' t_l \<and> \<not> truthy (property_name st)
                 then st\<lparr>property_name := labelled_value t (property_name st)\<rparr> else st);
          st2 = (if substr_in ''address line 1'' t_l
                    \<or> (substr_in ''address'' t_l \<and> substr_in ''line'' t_l \<and> substr_in ''1'' t_l)
                 then st1\<lparr>address_line1 := labelled_value t (address_line1 st1)\<rparr> else st1);
          st3 = (if substr_in ''address line 2'' t_l
                    \<or> (substr_in ''address'' t_l \<and> substr_in ''line'' t_l \<and> substr_in ''2'' t_l)
                 then st2\<lparr>address_line2 := labelled_value t (address_line2 st2)\<rparr> else st2);
          st4 = (if substr_in ''town'' t_l \<or> substr_in ''city'' t_l
                 then st3\<lparr>town_city := labelled_value t (town_city st3)\<rparr> else st3)
      in (if substr_in ''postcode'' t_l
          then (case split_colon t of
                  [_, v] \<Rightarrow> st4\<lparr>postcode := postcode_in v (postcode st4)\<rparr>
                | _ \<Rightarrow> st4)
          else st4))"

definition section_unlabelled :: "string \<Rightarrow> string \<Rightarrow> addr_parts \<Rightarrow> addr_parts" where
  \<comment> \<open>the value that follows its label: \<open>prev_t\<close> is the block before, lower-cased\<close>
  "section_unlabelled t prev_t st =
     (if substr_in ''property name'' prev_t \<and> \<not> truthy (property_name st)
      then st\<lparr>property_name := Some t\<rparr>
      else if (substr_in ''address line 1'' prev_t \<or> substr_in ''address'' prev_t)
              \<and> \<not> truthy (address_line1 st)
      then st\<lparr>address_line1 := Some t\<rparr>
      else if substr_in ''address line 2'' prev_t \<and> \<not> truthy (address_line2 st)
      then st\<lparr>address_line2 := Some t\<rparr>
      else if (substr_in ''town'' prev_t \<or> substr_in ''city'' prev_t) \<and> \<not> truthy (town_city st)
      then st\<lparr>town_city := Some t\<rparr>
      else if substr_in ''postcode'' prev_t \<and> \<not> truthy (postcode st)
      then st\<lparr>postcode := postcode_in t (postcode st)\<rparr>
      else st)"

definition section_step :: "block list \<Rightarrow> nat \<Rightarrow> addr_parts \<Rightarrow> nat \<Rightarrow> addr_parts" where
  \<comment> \<open>the body of the loop over \<open>range(start_idx + 1, min(start_idx + 20, len(blocks)))\<close>;
     \<open>i\<close> and \<open>i - 1\<close> are indices of the list\<close>
  "section_step blocks start_idx st i =
     (let t = norm (block_text (blocks ! i)); t_l = lower t in
      if t = [] \<or> is_noise t \<or> length t < 2 then st
      else (let st5 = section_labels t t_l st in
            if start_idx + 1 < i
            then section_unlabelled t (lower (norm (block_text (blocks ! (i - 1))))) st5
            else st5))"

definition part :: "string option \<Rightarrow> string list" where
  \<comment> \<open>\<open>if x: address_parts.append(x)\<close>\<close>
  "part v = (case v of None \<Rightarrow> [] | Some x \<Rightarrow> (if x = [] then [] else [x]))"

definition address_parts_of :: "addr_parts \<Rightarrow> string list" where
  "address_parts_of st =
     part (property_name st) @ part (address_line1 st) @ part (address_line2 st)
     @ part (town_city st) @ part (postcode st)"

definition is_header_block :: "block \<Rightarrow> bool" where
  "is_header_block b =
     (let t = lower (norm (block_text b)) in list_ex (\<lambda>header. substr_in header t) section_headers)"

fun first_index :: "('a \<Rightarrow> bool) \<Rightarrow> 'a list \<Rightarrow> nat option" where
  "first_index P [] = None"
| "first_index P (x # xs) = (if P x then Some 0 else map_option Suc (first_index P xs))"

definition extract_site_address_from_section :: "block list \<Rightarrow> pick" where
  \<comment> \<open>the source block is \<open>blocks[start_idx]\<close>: \<open>start_idx\<close> is an index of the list, and
     the source's other branch (\<open>blocks[0]\<close>) is never taken\<close>
  "extract_site_address_from_section blocks =
     (case first_index is_header_block (take 200 blocks) of
        None \<Rightarrow> None
      | Some start_idx \<Rightarrow>
          (let st = foldl (section_step blocks start_idx)
                      \<lparr>property_name = None, address_line1 = None, address_line2 = None,
                       town_city = None, postcode = None\<rparr>
                      [start_idx + 1 ..< min (start_idx + 20) (length blocks)];
               address_parts = address_parts_of st
           in if address_parts \<noteq> []
              then Some (join '', '' address_parts,
                         (if start_idx < length blocks then blocks ! start_idx else blocks ! 0),
                         0.95)
              else None))"

definition DEMOLITION_RE :: regex where
  \<comment> \<open>\<open>demolition\s+of\s+(.+?)(?:\s+([A-Z]{1,2}\d[A-Z\d]?\s*\d[A-Z]{2}))\<close>, with \<open>re.I\<close>\<close>
  "DEMOLITION_RE = seqs [lit ''demolition'', Rep space 1 None True, lit ''of'',
     Rep space 1 None True, Grp 1 (Rep Dot 1 None False),
     seqs [Rep space 1 None True, Grp 2 postcode_pattern]]"

definition TRAILING_COMMA :: regex where
  \<comment> \<open>\<open>,\s*$\<close>\<close>
  "TRAILING_COMMA = seqs [lit '','', Rep space 0 None True, Eol]"

definition lastindex :: "rmatch_obj \<Rightarrow> nat" where
  \<comment> \<open>\<open>m.lastindex\<close>: the group that closed last (the program reads it only after a match
     of the demolition pattern, where it is never \<open>None\<close>; 0 stands for \<open>None\<close>)\<close>
  "lastindex m = (case m_groups m of [] \<Rightarrow> 0 | (n, _) # _ \<Rightarrow> n)"

definition address_part_of :: "rmatch_obj \<Rightarrow> string" where
  \<comment> \<open>\<open>address_part\<close>: the text captured by group 1, stripped, with a trailing comma removed\<close>
  "address_part_of m = re_sub False TRAILING_COMMA [] (strip (group 1 m))"

definition demolition_address :: "rmatch_obj \<Rightarrow> string" where
  \<comment> \<open>\<open>full_address\<close>, built from a match of the demolition pattern\<close>
  "demolition_address m =
     (let postcode_part = (if 2 \<le> lastindex m then Some (upper (group 2 m)) else None);
          address_part = address_part_of m
      in case postcode_part of
           Some pc \<Rightarrow> (if pc \<noteq> [] then address_part @ '', '' @ pc else address_part)
         | None \<Rightarrow> address_part)"

definition demolition_hit :: "block \<Rightarrow> string option" where
  \<comment> \<open>the body of the loop: the address found in one block, if it is long enough\<close>
  "demolition_hit b =
     (let t = norm (block_text b); t_l = lower t in
      if substr_in ''demolition of'' t_l \<or> substr_in ''demolition'' t_l
      then (case re_search True DEMOLITION_RE t of
              Some m \<Rightarrow> (let full_address = demolition_address m in
                         if 10 < length full_address then Some full_address else None)
            | None \<Rightarrow> None)
      else None)"

definition extract_address_from_demolition_pattern :: "block list \<Rightarrow> pick" where
  "extract_address_from_demolition_pattern blocks =
     (case first_some demolition_hit (take 100 blocks) of
        Some (b, full_address) \<Rightarrow> Some (full_address, b, 0.85)
      | None \<Rightarrow> None)"

definition GRID_PAIR :: regex where
  \<comment> \<open>\<open>^\s*\d+\s+\d+\s*$\<close>\<close>
  "GRID_PAIR = seqs [Bol, Rep space 0 None True, Rep digit 1 None True, Rep space 1 None True,
     Rep digit 1 None True, Rep space 0 None True, Eol]"

definition GRID_NUMBER :: regex where
  \<comment> \<open>\<open>^\s*\d+\s*$\<close>\<close>
  "GRID_NUMBER = seqs [Bol, Rep space 0 None True, Rep digit 1 None True,
     Rep space 0 None True, Eol]"

definition best_confidence :: "pick \<Rightarrow> rat" where
  "best_confidence best = (case best of None \<Rightarrow> 0.0 | Some (_, _, c) \<Rightarrow> c)"

definition better :: "pick \<Rightarrow> string \<Rightarrow> block \<Rightarrow> rat \<Rightarrow> pick" where
  \<comment> \<open>\<open>if confidence > best_confidence: best_match = ...; best_block = b; ...\<close>\<close>
  "better best v b confidence =
     (if best_confidence best < confidence then Some (v, b, confidence) else best)"

definition heuristic_step :: "block list \<Rightarrow> pick \<Rightarrow> nat \<times> block \<Rightarrow> pick" where
  \<comment> \<open>the body of the loop of strategy 3\<close>
  "heuristic_step blocks best ib =
     (let i = fst ib; b = snd ib; t = norm (block_text b) in
      if t = [] \<or> is_noise t then best
      else if length t < 5 \<or> substr_in ''disclaimer'' (lower t)
              \<or> substr_in ''for information'' (lower t) then best
      else if re_match False GRID_PAIR t \<noteq> None then best
      else if re_match False GRID_NUMBER t \<noteq> None then best
      else (let in_site_section = is_in_site_location_section blocks i in
            if re_match False ADDRESS_LIKE t \<noteq> None
            then better best t b (if in_site_section then 0.7 else 0.4)
            else if list_ex (\<lambda>label. substr_in label (lower t))
                      [''site address'', ''address of site'', ''site location'']
            then (case split_colon t of
                    [_, v] \<Rightarrow>
                      (if norm v \<noteq> [] \<and> 5 < length (norm v)
                       then better best (norm v) b (if in_site_section then 0.8 else 0.6)
                       else best)
                  | _ \<Rightarrow> best)
            else best))"

definition accepted :: "rat \<Rightarrow> pick \<Rightarrow> bool" where
  \<comment> \<open>\<open>addr and conf >= bar\<close>\<close>
  "accepted bar r = (case r of None \<Rightarrow> False | Some (addr, _, conf) \<Rightarrow> addr \<noteq> [] \<and> bar \<le> conf)"

definition pick_site_address :: "block list \<Rightarrow> pick" where
  "pick_site_address blocks =
     (let r1 = extract_site_address_from_section blocks in
      if accepted 0.9 r1 then r1
      else (let r2 = extract_address_from_demolition_pattern blocks in
            if accepted 0.8 r2 then r2
            else (case foldl (heuristic_step blocks) None (enumerate_list (take 100 blocks)) of
                    Some (best_match, best_block, conf) \<Rightarrow>
                      (if best_match \<noteq> [] \<and> 0.3 < conf
                       then Some (best_match, best_block, conf) else None)
                  | None \<Rightarrow> None)))"

definition proposed_use_hit :: "block \<Rightarrow> (string \<times> rat) option" where
  \<comment> \<open>the body of the loop of \<open>pick_proposed_use\<close>\<close>
  "proposed_use_hit b =
     (let t = norm (block_text b) in
      if t = [] \<or> is_noise t then None
      else if re_search True PROPOSAL_HINTS t \<noteq> None \<and> 20 \<le> length t
              \<and> (looks_like_allcaps t \<or> endswith ''.'' t)
      then Some (t, if 30 \<le> length t then 0.7 else 0.5)
      else None)"

definition pick_proposed_use :: "block list \<Rightarrow> pick" where
  "pick_proposed_use blocks =
     (case first_some proposed_use_hit (take 80 blocks) of
        Some (b, t, confidence) \<Rightarrow> Some (t, b, confidence)
      | None \<Rightarrow> None)"


section \<open>The document classifier\<close>

definition hint_score :: "regex list \<Rightarrow> string \<Rightarrow> nat" where
  \<comment> \<open>\<open>sum(1 for h in hints if re.search(h, text))\<close>\<close>
  "hint_score hints txt = length (filter (\<lambda>h. re_search False h txt \<noteq> None) hints)"

definition priority_order :: "string list" where
  "priority_order = [''application_form'', ''site_notice'', ''site_plan'', ''design_statement'',
     ''heritage'', ''drawing'']"

definition classify_priority :: "string \<Rightarrow> string \<times> nat \<Rightarrow> string \<Rightarrow> string \<times> nat" where
  \<comment> \<open>the body of the loop over \<open>priority_order\<close>\<close>
  "classify_priority txt best dtype =
     (case map_of DOC_TYPE_HINTS dtype of
        None \<Rightarrow> best
      | Some hints \<Rightarrow>
          (let score = hint_score hints txt in
           if snd best < score then (dtype, score) else best))"

definition classify_rest :: "string \<Rightarrow> string \<times> nat \<Rightarrow> string \<times> regex list \<Rightarrow> string \<times> nat" where
  \<comment> \<open>the body of the loop over the remaining types\<close>
  "classify_rest txt best dh =
     (if fst dh \<notin> set priority_order
      then (let score = hint_score (snd dh) txt in
            if snd best < score then (fst dh, score) else best)
      else best)"

definition corpus :: "block list \<Rightarrow> string" where
  "corpus text_blocks =
     lower (join '' '' (map (\<lambda>b. norm (block_text b)) (take 200 text_blocks)))"

definition classify_text :: "string \<Rightarrow> string" where
  "classify_text txt =
     (let best = foldl (classify_priority txt) (''unknown'', 0) priority_order;
          best = (if snd best = 0 then foldl (classify_rest txt) best DOC_TYPE_HINTS else best)
      in fst best)"

definition classify_document :: "block list \<Rightarrow> string" where
  "classify_document text_blocks = classify_text (corpus text_blocks)"

section \<open>Label-based extraction\<close>

fun collect_next :: "nat \<Rightarrow> block list \<Rightarrow> string list \<Rightarrow> string list" where
  \<comment> \<open>the loop \<open>for j in range(1, 4)\<close>: \<open>bs\<close> are the blocks from \<open>text_blocks[i + j]\<close> on\<close>
  "collect_next 0 bs nxt = nxt"
| "collect_next (Suc n) bs nxt =
     (let nxt' = (case bs of
                    [] \<Rightarrow> nxt
                  | b # _ \<Rightarrow> (let nxt_txt = norm (block_text b) in
                              if nxt_txt \<noteq> [] then nxt @ [nxt_txt] else nxt))
      in if 20 < length (join '' '' nxt') then nxt' else collect_next n (drop 1 bs) nxt')"

fun extract_by_label :: "block list \<Rightarrow> regex list \<Rightarrow> (string \<times> block) option" where
  \<comment> \<open>the loop runs over every block of the list; at block \<open>i\<close> the blocks after it are the
     rest of the list\<close>
  "extract_by_label [] label_patterns = None"
| "extract_by_label (b # bs) label_patterns =
     (let t = norm (block_text b); t_l = lower t in
      if list_ex (\<lambda>p. re_search False p t_l \<noteq> None) label_patterns
      then (case (case split_colon t of
                    [_, v] \<Rightarrow> (if norm v \<noteq> [] then Some (norm v, b) else None)
                  | _ \<Rightarrow> None) of
              Some r \<Rightarrow> Some r
            | None \<Rightarrow>
                (let nxt = collect_next 3 bs [] in
                 if nxt \<noteq> [] then Some (norm (join '' '' nxt), b)
                 else extract_by_label bs label_patterns))
      else extract_by_label bs label_patterns)"


section \<open>The orchestrator\<close>

text \<open>
  \<open>fields\<close> maps a key to a str or to a float. The model keeps the dict as the list of the
  assignments \<open>fields[k] = v\<close> made on it, in the order they were made: \<open>k in fields\<close> asks
  whether \<open>k\<close> was assigned, \<open>fields[k]\<close> reads the last assignment to \<open>k\<close>, and a key
  that occurs twice in the list was overwritten. The confidences are the decimal
  constants of the source, which compare as floats the way they compare as rationals.
\<close>

datatype fval = Str string | Num rat

type_synonym field_dict = "(string \<times> fval) list"

definition has_key :: "string \<Rightarrow> field_dict \<Rightarrow> bool" where
  \<comment> \<open>\<open>k in fields\<close>\<close>
  "has_key k fs = (k \<in> set (map fst fs))"

definition set_item :: "field_dict \<Rightarrow> string \<Rightarrow> fval \<Rightarrow> field_dict" where
  \<comment> \<open>\<open>fields[k] = v\<close>\<close>
  "set_item fs k v = fs @ [(k, v)]"

definition get_item :: "field_dict \<Rightarrow> string \<Rightarrow> fval option" where
  \<comment> \<open>\<open>fields.get(k)\<close>\<close>
  "get_item fs k = map_of (rev fs) k"

record result =
  res_fields :: field_dict
  res_evidence_index :: evidence

definition assign_field :: "result \<Rightarrow> string \<Rightarrow> string \<Rightarrow> rat \<Rightarrow> block \<Rightarrow> string \<Rightarrow> string
    \<Rightarrow> result" where
  \<comment> \<open>the lines every strategy ends with: \<open>fields[field] = value\<close>,
     \<open>fields[f"{field}_confidence"] = conf\<close>, and the evidence entry of the source block\<close>
  "assign_field r field v conf src snippet dtype =
     \<lparr>res_fields = set_item (set_item (res_fields r) field (Str v)) (field @ ''_confidence'') (Num conf),
      res_evidence_index = add_ev (res_evidence_index r) field (block_page src) (block_id_of src) snippet
                         conf (Some dtype)\<rparr>"

definition map_application_ref :: "block list \<Rightarrow> string \<Rightarrow> result \<Rightarrow> result" where
  "map_application_ref blocks dtype r =
     (case first_some (\<lambda>b. re_search True APPREF_RE (block_text b)) (take 400 blocks) of
        None \<Rightarrow> r
      | Some (b, m) \<Rightarrow>
          (let ref = upper (group 1 m) in
           assign_field r ''application_ref'' ref (if substr_in ''PP-'' ref then 0.9 else 0.8)
             b (block_text b) dtype))"

definition map_site_address :: "block list \<Rightarrow> string \<Rightarrow> result \<Rightarrow> result" where
  "map_site_address blocks dtype r =
     (if \<not> has_key ''site_address'' (res_fields r)
      then (case pick_site_address blocks of
              Some (addr, src, conf) \<Rightarrow>
                (if addr \<noteq> [] then assign_field r ''site_address'' addr conf src (block_text src) dtype
                 else r)
            | None \<Rightarrow> r)
      else r)"

definition PRIOR_APPROVAL_SPLIT :: regex where
  \<comment> \<open>\<open>:|for\<close>\<close>
  "PRIOR_APPROVAL_SPLIT = Alt (lit '':'') (lit ''for'')"

definition prior_approval_hit :: "block \<Rightarrow> (string \<times> string) option" where
  \<comment> \<open>the body of the primary loop: the normalized text of the block and the text taken\<close>
  "prior_approval_hit b =
     (let t = norm (block_text b); t_l = lower t in
      if substr_in ''i/we hereby apply for prior approval'' t_l \<or> substr_in ''prior approval for'' t_l
      then (case re_split1 False PRIOR_APPROVAL_SPLIT t of
              [_, v] \<Rightarrow> (let prop_text = norm v in
                         if 10 < length prop_text then Some (t, prop_text) else None)
            | _ \<Rightarrow> None)
      else None)"

definition map_proposed_use :: "block list \<Rightarrow> string \<Rightarrow> result \<Rightarrow> result" where
  "map_proposed_use blocks dtype r =
     (if \<not> has_key ''proposed_use'' (res_fields r)
      then (let r1 = (case first_some prior_approval_hit (take 100 blocks) of
                        Some (b, t, prop_text) \<Rightarrow>
                          assign_field r ''proposed_use'' prop_text 0.9 b t dtype
                      | None \<Rightarrow> r)
            in if \<not> has_key ''proposed_use'' (res_fields r1)
               then (case pick_proposed_use blocks of
                       Some (prop, src, conf) \<Rightarrow>
                         (if prop \<noteq> []
                          then assign_field r1 ''proposed_use'' prop conf src (block_text src) dtype
                          else r1)
                     | None \<Rightarrow> r1)
               else r1)
      else r)"

definition map_label :: "block list \<Rightarrow> string \<Rightarrow> result \<Rightarrow> string \<times> regex list \<Rightarrow> result" where
  \<comment> \<open>the body of the loop over \<open>LABEL_PATTERNS.items()\<close>\<close>
  "map_label blocks dtype r fp =
     (if \<not> has_key (fst fp) (res_fields r)
      then (case extract_by_label blocks (snd fp) of
              Some (val, src) \<Rightarrow>
                (if val \<noteq> [] then assign_field r (fst fp) val 0.7 src (block_text src) dtype
                 else r)
            | None \<Rightarrow> r)
      else r)"

type_synonym candidate = "string \<times> block \<times> rat \<times> nat"

definition postcode_candidate :: "block list \<Rightarrow> nat \<times> block \<Rightarrow> candidate option" where
  \<comment> \<open>the body of the loop that collects the postcodes with their context score\<close>
  "postcode_candidate blocks ib =
     (let i = fst ib; b = snd ib; t = block_text b in
      case re_search True POSTCODE_RE t of
        None \<Rightarrow> None
      | Some m \<Rightarrow>
          (let pc = upper (group 1 m);
               in_site_section = is_in_site_location_section blocks i;
               t_l = lower t;
               confidence = (if in_site_section \<or> substr_in ''postcode'' t_l then 0.9
                             else if substr_in ''site'' t_l \<or> substr_in ''address'' t_l then 0.7
                             else 0.5);
               confidence = (if is_council_contact t \<or> substr_in ''po box'' t_l
                                \<or> substr_in ''birmingham city council'' t_l
                             then (if startswith ''B1 1TU'' pc \<or> substr_in ''po box'' t_l
                                   then 0.1 else confidence)
                             else confidence)
           in Some (pc, b, confidence, i)))"

definition postcode_candidates :: "block list \<Rightarrow> candidate list" where
  "postcode_candidates blocks =
     List.map_filter (postcode_candidate blocks) (enumerate_list (take 400 blocks))"

definition cand_conf :: "candidate \<Rightarrow> rat" where
  "cand_conf c = fst (snd (snd c))"

definition sort_by_confidence :: "candidate list \<Rightarrow> candidate list" where
  \<comment> \<open>\<open>sort(key=lambda x: x[2], reverse=True)\<close>: stable, highest confidence first\<close>
  "sort_by_confidence cs = sort_key (\<lambda>c. - cand_conf c) cs"

definition map_postcode :: "block list \<Rightarrow> string \<Rightarrow> result \<Rightarrow> result" where
  "map_postcode blocks dtype r =
     (let postcode_candidates = postcode_candidates blocks in
      if postcode_candidates \<noteq> [] \<and> \<not> has_key ''postcode'' (res_fields r)
      then (case sort_by_confidence postcode_candidates of
              (pc, b, conf, idx) # _ \<Rightarrow>
                (if 0.3 \<le> conf then assign_field r ''postcode'' pc conf b (block_text b) dtype
                 else r)
            | [] \<Rightarrow> r)
      else r)"

definition context_of :: "block list \<Rightarrow> nat \<Rightarrow> string" where
  \<comment> \<open>\<open>blocks[max(0, i-2):min(len(blocks), i+3)]\<close>, normalized, joined and lower-cased\<close>
  "context_of blocks i =
     lower (join '' '' (map (\<lambda>cb. norm (block_text cb))
                          (drop (i - 2) (take (min (length blocks) (i + 3)) blocks))))"

definition map_email :: "block list \<Rightarrow> string \<Rightarrow> result \<Rightarrow> nat \<times> block \<Rightarrow> result" where
  \<comment> \<open>\<open>if "applicant_email" not in fields: ...\<close>\<close>
  "map_email blocks dtype r ib =
     (let i = fst ib; b = snd ib; t = block_text b in
      if \<not> has_key ''applicant_email'' (res_fields r)
      then (case re_search True EMAIL_RE t of
              Some m \<Rightarrow>
                assign_field r ''applicant_email'' (group0 t m)
                  (if substr_in ''applicant'' (context_of blocks i) then 0.8 else 0.5) b t dtype
            | None \<Rightarrow> r)
      else r)"

definition map_phone :: "block list \<Rightarrow> string \<Rightarrow> result \<Rightarrow> nat \<times> block \<Rightarrow> result" where
  \<comment> \<open>\<open>if "applicant_phone" not in fields: ...\<close>\<close>
  "map_phone blocks dtype r ib =
     (let i = fst ib; b = snd ib; t = block_text b in
      if \<not> has_key ''applicant_phone'' (res_fields r)
      then (case re_search False PHONE_RE t of
              Some m \<Rightarrow>
                (if looks_like_phone (group 1 m) \<and> 9 \<le> length (norm (group 1 m))
                 then assign_field r ''applicant_phone'' (norm (group 1 m))
                        (if substr_in ''applicant'' (context_of blocks i) then 0.8 else 0.5)
                        b t dtype
                 else r)
            | None \<Rightarrow> r)
      else r)"

definition map_contact :: "block list \<Rightarrow> string \<Rightarrow> result \<Rightarrow> nat \<times> block \<Rightarrow> result" where
  \<comment> \<open>the body of the loop over the applicant's email and phone; a council contact block
     is skipped\<close>
  "map_contact blocks dtype r ib =
     (if is_council_contact (block_text (snd ib)) then r
      else map_phone blocks dtype (map_email blocks dtype r ib) ib)"

definition map_blocks :: "block list \<Rightarrow> result" where
  \<comment> \<open>\<open>map_fields\<close> from the point where \<open>blocks\<close> is bound. The list
     \<open>site_location_blocks\<close> that the source builds is never read and is left out.\<close>
  "map_blocks blocks =
     (let dtype = classify_document blocks;
          r = \<lparr>res_fields = set_item [] ''document_type'' (Str dtype), res_evidence_index = []\<rparr>;
          r = map_application_ref blocks dtype r;
          r = map_site_address blocks dtype r;
          r = map_proposed_use blocks dtype r;
          r = foldl (map_label blocks dtype) r LABEL_PATTERNS;
          r = map_postcode blocks dtype r
      in foldl (map_contact blocks dtype) r (enumerate_list (take 400 blocks)))"

text \<open>
  The input of \<open>map_fields\<close> is the layout dict. Its key \<open>text_blocks\<close> may be missing, or
  hold \<open>None\<close>, or hold the list of blocks.
\<close>

datatype 'a slot = Missing | NoneValue | Value 'a

record table_cell =
  cell_content :: "string option"

record table =
  t_page_number :: "int option"
  row_count :: "int option"
  column_count :: "int option"
  cells :: "table_cell list"

record layout =
  text_blocks :: "block list slot"
  tables :: "table list slot"

definition map_fields :: "layout \<Rightarrow> result" where
  \<comment> \<open>\<open>blocks = extracted_layout.get("text_blocks", []) or []\<close>\<close>
  "map_fields extracted_layout =
     map_blocks (case text_blocks extracted_layout of Value bs \<Rightarrow> bs | _ \<Rightarrow> [])"


section \<open>The pipeline entry point\<close>

text \<open>
  \<open>extract_from_pdf_bytes\<close> takes the result of the layout analysis, which is the work of
  an external service; the model takes that result as its argument. The keys \<open>metadata\<close>
  and \<open>page_anchors\<close> and the bounding boxes are handed through untouched and are left
  out. Iterating over \<open>None\<close> raises a \<open>TypeError\<close>.
\<close>

datatype error = TypeError

datatype ev_value =
    TextBlockEv string string "int option"
  | TableEv "int option" "int option" "int option" string "table_cell list"
  | FieldEv "ev_entry list"

type_synonym general_evidence = "(string \<times> ev_value) list"

definition put :: "general_evidence \<Rightarrow> string \<Rightarrow> ev_value \<Rightarrow> general_evidence" where
  \<comment> \<open>\<open>evidence_index[k] = v\<close>\<close>
  "put d k v = (if k \<in> set (map fst d) then map (\<lambda>(k', v'). if k' = k then (k', v) else (k', v')) d
                else d @ [(k, v)])"

record outcome =
  out_fields :: field_dict
  out_evidence_index :: general_evidence
  out_text_blocks :: "block list"
  out_tables :: "table list"

definition text_block_evidence :: "general_evidence \<Rightarrow> nat \<times> block \<Rightarrow> general_evidence" where
  \<comment> \<open>the body of the loop over the text blocks, without the assignment of the index\<close>
  "text_block_evidence ev ib =
     (let i = fst ib; block = snd ib;
          c = (case b_content block of Some c \<Rightarrow> c | None \<Rightarrow> []);
          snippet = (if 100 < length c then take 100 c @ ''...'' else c)
      in put ev (''text_block_'' @ str_nat i) (TextBlockEv c snippet (b_page_number block)))"

definition table_evidence :: "general_evidence \<Rightarrow> nat \<times> table \<Rightarrow> general_evidence" where
  "table_evidence ev it =
     (let i = fst it; tb = snd it;
          cell_snippets = List.map_filter
             (\<lambda>cell. case cell_content cell of
                        Some c \<Rightarrow> (if c \<noteq> [] then Some (take 50 c) else None)
                      | None \<Rightarrow> None)
             (take 5 (cells tb))
      in put ev (''table_'' @ str_nat i)
           (TableEv (row_count tb) (column_count tb) (t_page_number tb)
              (if cell_snippets \<noteq> [] then join '' | '' cell_snippets else []) (cells tb)))"

definition set_index :: "nat \<times> block \<Rightarrow> block" where
  \<comment> \<open>\<open>block["index"] = i\<close>\<close>
  "set_index ib = (snd ib)\<lparr>b_index := Some (int (fst ib))\<rparr>"

definition extract_from_pdf_bytes :: "layout \<Rightarrow> error + outcome" where
  \<comment> \<open>\<open>map_fields\<close> runs first, on the blocks as the analysis returned them; the loop that
     follows gives every block its index\<close>
  "extract_from_pdf_bytes extraction_result =
     (let mapped = map_fields extraction_result in
      case text_blocks extraction_result of
        NoneValue \<Rightarrow> Inl TypeError
      | tb \<Rightarrow>
          (let bs = (case tb of Value bs \<Rightarrow> bs | _ \<Rightarrow> []);
               ev = foldl text_block_evidence [] (enumerate_list bs);
               bs' = map set_index (enumerate_list bs)
           in case tables extraction_result of
                NoneValue \<Rightarrow> Inl TypeError
              | tv \<Rightarrow>
                  (let ts = (case tv of Value ts \<Rightarrow> ts | _ \<Rightarrow> []);
                       ev = foldl table_evidence ev (enumerate_list ts);
                       ev = foldl (\<lambda>ev fe. put ev (fst fe) (FieldEv (snd fe))) ev
                              (res_evidence_index mapped)
                   in Inr \<lparr>out_fields = res_fields mapped, out_evidence_index = ev,
                           out_text_blocks = bs', out_tables = ts\<rparr>)))"


section \<open>Definitions used in the proofs\<close>

definition FIELD_NAMES :: "string list" where
  "FIELD_NAMES = [''application_ref'', ''site_address'', ''proposed_use'', ''proposal_description'',
     ''applicant_name'', ''agent_name'', ''postcode'', ''applicant_email'', ''applicant_phone'']"

definition entries_of :: "string \<times> string \<times> ev_entry \<Rightarrow> (string \<times> fval) list" where
  "entries_of x = [(fst x, Str (fst (snd x))), (fst x @ ''_confidence'', Num (ev_confidence (snd (snd x))))]"

definition well_formed :: "string set \<Rightarrow> result \<Rightarrow> bool" where
  "well_formed K r \<longleftrightarrow>
     (\<exists>d fs. res_fields r = (''document_type'', Str d) # concat (map entries_of fs)
        \<and> res_evidence_index r = map (\<lambda>x. (fst x, [snd (snd x)])) fs
        \<and> distinct (map fst fs) \<and> fst ` set fs \<subseteq> K \<and> K \<subseteq> set FIELD_NAMES)"

definition grows :: "result \<Rightarrow> result \<Rightarrow> bool" where
  "grows r r' \<longleftrightarrow> set (res_fields r) \<subseteq> set (res_fields r')
     \<and> set (res_evidence_index r) \<subseteq> set (res_evidence_index r')"

definition initial :: "block list \<Rightarrow> result" where
  "initial bs = \<lparr>res_fields = set_item [] ''document_type'' (Str (classify_document bs)),
                 res_evidence_index = []\<rparr>"

definition after_application_ref :: "block list \<Rightarrow> result" where
  "after_application_ref bs = map_application_ref bs (classify_document bs) (initial bs)"

definition after_site_address :: "block list \<Rightarrow> result" where
  "after_site_address bs = map_site_address bs (classify_document bs) (after_application_ref bs)"

definition after_proposed_use :: "block list \<Rightarrow> result" where
  "after_proposed_use bs = map_proposed_use bs (classify_document bs) (after_site_address bs)"

definition after_labels :: "block list \<Rightarrow> result" where
  "after_labels bs = foldl (map_label bs (classify_document bs)) (after_proposed_use bs) LABEL_PATTERNS"

definition after_postcode :: "block list \<Rightarrow> result" where
  "after_postcode bs = map_postcode bs (classify_document bs) (after_labels bs)"

definition step_ok :: "string \<Rightarrow> string set \<Rightarrow> result \<Rightarrow> result \<Rightarrow> bool" where
  "step_ok g K r r' \<longleftrightarrow> well_formed (insert g K) r' \<and> grows r r'"

definition label_keys :: "string set" where
  "label_keys = {''proposed_use'', ''site_address'', ''application_ref'', ''proposal_description'',
     ''applicant_name'', ''agent_name''}"

definition made_entry :: "block \<Rightarrow> string \<Rightarrow> rat \<Rightarrow> string \<Rightarrow> ev_entry" where
  "made_entry src snippet conf dtype =
     \<lparr>ev_page = block_page src, ev_block_id = block_id_of src, ev_snippet = take 240 (norm snippet),
      ev_confidence = conf, ev_source_doc_type = Some dtype\<rparr>"

definition assigned :: "result \<Rightarrow> string \<Rightarrow> string \<Rightarrow> rat \<Rightarrow> ev_entry \<Rightarrow> bool" where
  "assigned r g v c e \<longleftrightarrow>
     get_item (res_fields r) g = Some (Str v)
     \<and> get_item (res_fields r) (g @ ''_confidence'') = Some (Num c)
     \<and> map_of (res_evidence_index r) g = Some [e]"

text \<open>The inputs at which the claims are evaluated.\<close>

definition content_block :: "string \<Rightarrow> block" where
  \<comment> \<open>a block that carries only its content\<close>
  "content_block c = \<lparr>b_content = Some c, b_text = None, b_page_number = None, b_page = None,
                      b_index = None\<rparr>"

definition blocks_layout :: "block list \<Rightarrow> layout" where
  \<comment> \<open>a layout with these text blocks and no tables\<close>
  "blocks_layout bs = \<lparr>text_blocks = Value bs, tables = Value []\<rparr>"

definition prior_approval_text :: string where
  "prior_approval_text = ''I/We hereby apply for Prior Approval: change of use to a single dwelling''"

definition site_location_blocks :: "block list" where
  "site_location_blocks = [content_block ''Site Location'',
     content_block ''Address Line 1: 12 Example Street'', content_block ''Postcode: B12 3CD'']"

definition ref_block :: block where
  "ref_block = \<lparr>b_content = Some ''Ref PP-12345678'', b_text = None, b_page_number = Some 1,
                 b_page = None, b_index = None\<rparr>"

definition ref_result :: result where
  "ref_result =
     \<lparr>res_fields = [(''document_type'', Str ''unknown''), (''application_ref'', Str ''PP-12345678''),
                    (''application_ref_confidence'', Num 0.9)],
      res_evidence_index = [(''application_ref'',
         [\<lparr>ev_page = 1, ev_block_id = ''p1b'', ev_snippet = ''Ref PP-12345678'',
           ev_confidence = 0.9, ev_source_doc_type = Some ''unknown''\<rparr>])]\<rparr>"

definition ref_layout :: layout where
  "ref_layout = \<lparr>text_blocks = Value [ref_block], tables = Value []\<rparr>"

definition type_score :: "string \<Rightarrow> string \<Rightarrow> nat" where
  "type_score dtype txt =
     (case map_of DOC_TYPE_HINTS dtype of None \<Rightarrow> 0 | Some hints \<Rightarrow> hint_score hints txt)"

definition mixed_vocabulary_blocks :: "block list" where
  "mixed_vocabulary_blocks = [content_block ''prior approval existing proposed'']"

definition tied_vocabulary_blocks :: "block list" where
  "tied_vocabulary_blocks = [content_block ''prior approval proposed'']"

definition po_box_blocks :: "block list" where
  "po_box_blocks = [content_block ''PO Box 28 B1 1TU'', content_block ''Site B12 3CD'']"

fun groupless :: "regex \<Rightarrow> bool" where
  "groupless (Grp n r) = False"
| "groupless (Seq a b) = (groupless a \<and> groupless b)"
| "groupless (Alt a b) = (groupless a \<and> groupless b)"
| "groupless r = True"

definition short_demolition_blocks :: "block list" where
  "short_demolition_blocks = [content_block ''demolition of Unit M B8 1BG'']"

definition short_demolition_match :: rmatch_obj where
  "short_demolition_match = \<lparr>m_start = 0, m_end = 27, m_groups = [(2, ''B8 1BG''), (1, ''Unit M'')]\<rparr>"

definition road_demolition_blocks :: "block list" where
  "road_demolition_blocks = [content_block ''demolition of Unit M, Dorset Road, B8 1BG'']"

definition road_demolition_match :: rmatch_obj where
  "road_demolition_match =
     \<lparr>m_start = 0, m_end = 41, m_groups = [(2, ''B8 1BG''), (1, ''Unit M, Dorset Road,'')]\<rparr>"












section \<open>The invariant of the orchestrator\<close>

lemma field_name_suffix: "g \<in> set FIELD_NAMES \<Longrightarrow> take 11 (rev g) \<noteq> rev ''_confidence''"
  by (auto simp: FIELD_NAMES_def)

lemma field_name_not_conf: "g \<in> set FIELD_NAMES \<Longrightarrow> g \<noteq> f @ ''_confidence''"
proof
  assume g: "g \<in> set FIELD_NAMES" and "g = f @ ''_confidence''"
  then have "take 11 (rev g) = rev ''_confidence''" by simp
  with field_name_suffix[OF g] show False by contradiction
qed

lemma field_name_not_dt: "g \<in> set FIELD_NAMES \<Longrightarrow> g \<noteq> ''document_type''"
  by (auto simp: FIELD_NAMES_def)

lemma has_key_entries:
  "has_key g (kv # concat (map entries_of fs)) \<longleftrightarrow>
     g = fst kv \<or> g \<in> fst ` set fs \<or> g \<in> (\<lambda>x. fst x @ ''_confidence'') ` set fs"
  by (induction fs) (auto simp: entries_of_def has_key_def)

lemma wf_has_key:
  assumes "well_formed K r" "g \<in> set FIELD_NAMES"
  shows "has_key g (res_fields r) \<longleftrightarrow> g \<in> fst ` set (res_evidence_index r)"
proof -
  from assms(1) obtain d fs where
    f: "res_fields r = (''document_type'', Str d) # concat (map entries_of fs)"
    and e: "res_evidence_index r = map (\<lambda>x. (fst x, [snd (snd x)])) fs"
    unfolding well_formed_def by blast
  have "fst ` set (res_evidence_index r) = fst ` set fs"
    by (force simp: e)
  then show ?thesis
    using field_name_not_conf[OF assms(2)] field_name_not_dt[OF assms(2)]
    unfolding f has_key_entries by auto
qed

lemma wf_not_has_key:
  assumes "well_formed K r" "g \<in> set FIELD_NAMES" "g \<notin> K"
  shows "\<not> has_key g (res_fields r)"
proof -
  from assms(1) obtain d fs where
    f: "res_fields r = (''document_type'', Str d) # concat (map entries_of fs)"
    and k: "fst ` set fs \<subseteq> K"
    unfolding well_formed_def by blast
  show ?thesis
    using field_name_not_conf[OF assms(2)] field_name_not_dt[OF assms(2)] k assms(3)
    unfolding f has_key_entries by auto
qed

lemma wf_init: "well_formed {} \<lparr>res_fields = set_item [] ''document_type'' (Str d), res_evidence_index = []\<rparr>"
  unfolding well_formed_def set_item_def
  by (rule exI[of _ d], rule exI[of _ "[]"]) simp

lemma wf_mono:
  assumes "well_formed K r" "K \<subseteq> K'" "K' \<subseteq> set FIELD_NAMES"
  shows "well_formed K' r"
proof -
  from assms(1) obtain d fs where
    "res_fields r = (''document_type'', Str d) # concat (map entries_of fs)"
    "res_evidence_index r = map (\<lambda>x. (fst x, [snd (snd x)])) fs"
    "distinct (map fst fs)" "fst ` set fs \<subseteq> K"
    unfolding well_formed_def by blast
  moreover from this assms(2) have "fst ` set fs \<subseteq> K'" by (rule_tac order_trans)
  ultimately show ?thesis unfolding well_formed_def using assms(3) by blast
qed

lemma wf_assign:
  assumes "well_formed K r" "g \<in> set FIELD_NAMES" "\<not> has_key g (res_fields r)"
  shows "well_formed (insert g K) (assign_field r g v c b s dt)"
proof -
  from assms(1) obtain d fs where
    f: "res_fields r = (''document_type'', Str d) # concat (map entries_of fs)"
    and e: "res_evidence_index r = map (\<lambda>x. (fst x, [snd (snd x)])) fs"
    and dist: "distinct (map fst fs)" and k: "fst ` set fs \<subseteq> K" and kk: "K \<subseteq> set FIELD_NAMES"
    unfolding well_formed_def by blast
  have notin: "g \<notin> fst ` set fs"
    using assms(3) unfolding f has_key_entries by blast
  define en where "en = \<lparr>ev_page = block_page b, ev_block_id = block_id_of b, ev_snippet = take 240 (norm s),
               ev_confidence = c, ev_source_doc_type = Some dt\<rparr>"
  have "g \<notin> fst ` set (res_evidence_index r)"
    using notin unfolding e by force
  then have none: "map_of (res_evidence_index r) g = None"
    by (simp add: map_of_eq_None_iff)
  let ?fs = "fs @ [(g, v, en)]"
  have 1: "res_fields (assign_field r g v c b s dt) = (''document_type'', Str d) # concat (map entries_of ?fs)"
    by (simp add: assign_field_def set_item_def f entries_of_def en_def)
  have 2: "res_evidence_index (assign_field r g v c b s dt) = map (\<lambda>x. (fst x, [snd (snd x)])) ?fs"
    using none by (simp add: assign_field_def add_ev_def e en_def Let_def)
  have 3: "distinct (map fst ?fs)" using dist notin by auto
  have 4: "fst ` set ?fs \<subseteq> insert g K" using k by auto
  have 5: "insert g K \<subseteq> set FIELD_NAMES" using kk assms(2) by auto
  show ?thesis unfolding well_formed_def using 1 2 3 4 5 by blast
qed

lemma map_blocks_stages:
  "map_blocks bs = foldl (map_contact bs (classify_document bs)) (after_postcode bs)
                     (enumerate_list (take 400 bs))"
  by (simp add: map_blocks_def Let_def after_postcode_def after_labels_def after_proposed_use_def
        after_site_address_def after_application_ref_def initial_def)

lemma grows_refl: "grows r r"
  by (simp add: grows_def)

lemma grows_trans: "grows r r' \<Longrightarrow> grows r' r'' \<Longrightarrow> grows r r''"
  unfolding grows_def by (meson order_trans)

lemma grows_assign:
  assumes "well_formed K r" "g \<in> set FIELD_NAMES" "\<not> has_key g (res_fields r)"
  shows "grows r (assign_field r g v c b s dt)"
proof -
  have "g \<notin> fst ` set (res_evidence_index r)"
    using wf_has_key[OF assms(1,2)] assms(3) by simp
  then have "map_of (res_evidence_index r) g = None"
    by (simp add: map_of_eq_None_iff)
  then show ?thesis
    by (auto simp: grows_def assign_field_def set_item_def add_ev_def Let_def)
qed

text \<open>What one guarded assignment does to a well-formed state.\<close>

lemma step_ok_skip:
  assumes "well_formed K r" "g \<in> set FIELD_NAMES"
  shows "step_ok g K r r"
proof -
  have "K \<subseteq> set FIELD_NAMES" using assms(1) unfolding well_formed_def by blast
  then have "insert g K \<subseteq> set FIELD_NAMES" using assms(2) by simp
  then show ?thesis
    unfolding step_ok_def using wf_mono[OF assms(1), of "insert g K"] grows_refl by blast
qed

lemma step_ok_assign:
  assumes "well_formed K r" "g \<in> set FIELD_NAMES" "\<not> has_key g (res_fields r)"
  shows "step_ok g K r (assign_field r g v c b s dt)"
  unfolding step_ok_def using wf_assign[OF assms] grows_assign[OF assms] by simp

lemma application_ref_ok:
  assumes "well_formed K r" "''application_ref'' \<notin> K"
  shows "step_ok ''application_ref'' K r (map_application_ref bs d r)"
proof -
  have g: "''application_ref'' \<in> set FIELD_NAMES" by (simp add: FIELD_NAMES_def)
  have nk: "\<not> has_key ''application_ref'' (res_fields r)"
    by (rule wf_not_has_key[OF assms(1) g assms(2)])
  show ?thesis
    unfolding map_application_ref_def
    by (auto split: option.split simp: Let_def step_ok_skip[OF assms(1) g]
        step_ok_assign[OF assms(1) g nk])
qed

lemma site_address_ok:
  assumes "well_formed K r"
  shows "step_ok ''site_address'' K r (map_site_address bs d r)"
proof -
  have g: "''site_address'' \<in> set FIELD_NAMES" by (simp add: FIELD_NAMES_def)
  show ?thesis
    unfolding map_site_address_def
    by (auto split: option.split simp: step_ok_skip[OF assms(1) g]
        step_ok_assign[OF assms(1) g])
qed

lemma has_key_assign:
  "has_key k (res_fields (assign_field r g v c b s dt))
     \<longleftrightarrow> has_key k (res_fields r) \<or> k = g \<or> k = g @ ''_confidence''"
  by (auto simp: has_key_def assign_field_def set_item_def)

lemma proposed_use_ok:
  assumes "well_formed K r"
  shows "step_ok ''proposed_use'' K r (map_proposed_use bs d r)"
proof -
  have g: "''proposed_use'' \<in> set FIELD_NAMES" by (simp add: FIELD_NAMES_def)
  show ?thesis
    unfolding map_proposed_use_def
    by (auto split: option.split simp: Let_def has_key_assign step_ok_skip[OF assms(1) g]
        step_ok_assign[OF assms(1) g])
qed

lemma label_ok:
  assumes "well_formed K r" "fst fp \<in> set FIELD_NAMES"
  shows "step_ok (fst fp) K r (map_label bs d r fp)"
  unfolding map_label_def
  by (auto split: option.split simp: step_ok_skip[OF assms] step_ok_assign[OF assms])

lemma postcode_ok:
  assumes "well_formed K r"
  shows "step_ok ''postcode'' K r (map_postcode bs d r)"
proof -
  have g: "''postcode'' \<in> set FIELD_NAMES" by (simp add: FIELD_NAMES_def)
  show ?thesis
    unfolding map_postcode_def
    by (auto split: list.split simp: Let_def step_ok_skip[OF assms(1) g]
        step_ok_assign[OF assms(1) g])
qed

lemma email_ok:
  assumes "well_formed K r"
  shows "step_ok ''applicant_email'' K r (map_email bs d r ib)"
proof -
  have g: "''applicant_email'' \<in> set FIELD_NAMES" by (simp add: FIELD_NAMES_def)
  show ?thesis
    unfolding map_email_def
    by (auto split: option.split simp: Let_def step_ok_skip[OF assms(1) g]
        step_ok_assign[OF assms(1) g])
qed

lemma phone_ok:
  assumes "well_formed K r"
  shows "step_ok ''applicant_phone'' K r (map_phone bs d r ib)"
proof -
  have g: "''applicant_phone'' \<in> set FIELD_NAMES" by (simp add: FIELD_NAMES_def)
  show ?thesis
    unfolding map_phone_def
    by (auto split: option.split simp: Let_def step_ok_skip[OF assms(1) g]
        step_ok_assign[OF assms(1) g])
qed

lemma contact_ok:
  assumes "well_formed K r" "''applicant_email'' \<in> K" "''applicant_phone'' \<in> K"
  shows "well_formed K (map_contact bs d r ib) \<and> grows r (map_contact bs d r ib)"
proof -
  have ie: "insert ''applicant_email'' K = K" and ip: "insert ''applicant_phone'' K = K"
    using assms(2,3) by auto
  from email_ok[OF assms(1), of bs d ib]
  have w1: "well_formed K (map_email bs d r ib)" and g1: "grows r (map_email bs d r ib)"
    unfolding step_ok_def ie by simp_all
  from phone_ok[OF w1, of bs d ib]
  have w2: "well_formed K (map_phone bs d (map_email bs d r ib) ib)"
    and g2: "grows (map_email bs d r ib) (map_phone bs d (map_email bs d r ib) ib)"
    unfolding step_ok_def ip by simp_all
  show ?thesis
    unfolding map_contact_def using assms(1) w2 grows_refl grows_trans[OF g1 g2] by simp
qed

lemma contact_loop_ok:
  assumes "well_formed K r" "''applicant_email'' \<in> K" "''applicant_phone'' \<in> K"
  shows "well_formed K (foldl (map_contact bs d) r xs) \<and> grows r (foldl (map_contact bs d) r xs)"
  using assms(1)
proof (induction xs arbitrary: r)
  case Nil
  then show ?case by (simp add: grows_refl)
next
  case (Cons x xs)
  from contact_ok[OF Cons.prems assms(2,3)]
  have w: "well_formed K (map_contact bs d r x)" and g: "grows r (map_contact bs d r x)"
    by simp_all
  from Cons.IH[OF w] g show ?case
    by (auto intro: grows_trans)
qed

lemma wf_after_application_ref:
  "well_formed {''application_ref''} (after_application_ref bs)"
  and grows_after_application_ref: "grows (initial bs) (after_application_ref bs)"
proof -
  have "step_ok ''application_ref'' {} (initial bs) (after_application_ref bs)"
    unfolding after_application_ref_def
    by (rule application_ref_ok) (simp_all add: initial_def wf_init)
  then show "well_formed {''application_ref''} (after_application_ref bs)"
    and "grows (initial bs) (after_application_ref bs)"
    by (simp_all add: step_ok_def)
qed

lemma wf_after_site_address:
  "well_formed {''site_address'', ''application_ref''} (after_site_address bs)"
  and grows_after_site_address: "grows (after_application_ref bs) (after_site_address bs)"
proof -
  have "step_ok ''site_address'' {''application_ref''} (after_application_ref bs) (after_site_address bs)"
    unfolding after_site_address_def by (rule site_address_ok[OF wf_after_application_ref])
  then show "well_formed {''site_address'', ''application_ref''} (after_site_address bs)"
    and "grows (after_application_ref bs) (after_site_address bs)"
    by (simp_all add: step_ok_def)
qed

lemma wf_after_proposed_use:
  "well_formed {''proposed_use'', ''site_address'', ''application_ref''} (after_proposed_use bs)"
  and grows_after_proposed_use: "grows (after_site_address bs) (after_proposed_use bs)"
proof -
  have "step_ok ''proposed_use'' {''site_address'', ''application_ref''} (after_site_address bs)
          (after_proposed_use bs)"
    unfolding after_proposed_use_def by (rule proposed_use_ok[OF wf_after_site_address])
  then show "well_formed {''proposed_use'', ''site_address'', ''application_ref''} (after_proposed_use bs)"
    and "grows (after_site_address bs) (after_proposed_use bs)"
    by (simp_all add: step_ok_def)
qed

lemma label_loop_ok:
  assumes "well_formed K r" "fst ` set fps \<subseteq> set FIELD_NAMES"
  shows "well_formed (K \<union> fst ` set fps) (foldl (map_label bs d) r fps)
         \<and> grows r (foldl (map_label bs d) r fps)"
  using assms
proof (induction fps arbitrary: r K)
  case Nil
  then show ?case by (simp add: grows_refl)
next
  case (Cons fp fps)
  have "step_ok (fst fp) K r (map_label bs d r fp)"
    by (rule label_ok) (use Cons.prems in auto)
  then have w: "well_formed (insert (fst fp) K) (map_label bs d r fp)"
    and g: "grows r (map_label bs d r fp)"
    by (simp_all add: step_ok_def)
  from Cons.IH[OF w] Cons.prems(2) g show ?case
    by (auto intro: grows_trans)
qed

lemma wf_after_labels:
  "well_formed label_keys (after_labels bs)"
  and grows_after_labels: "grows (after_proposed_use bs) (after_labels bs)"
proof -
  have fn: "fst ` set LABEL_PATTERNS \<subseteq> set FIELD_NAMES"
    by (simp add: LABEL_PATTERNS_def FIELD_NAMES_def)
  have k: "{''proposed_use'', ''site_address'', ''application_ref''} \<union> fst ` set LABEL_PATTERNS = label_keys"
    by (auto simp: LABEL_PATTERNS_def label_keys_def)
  from label_loop_ok[OF wf_after_proposed_use[of bs] fn, where bs = bs and d = "classify_document bs"]
  show "well_formed label_keys (after_labels bs)" and "grows (after_proposed_use bs) (after_labels bs)"
    unfolding k after_labels_def by simp_all
qed

lemma wf_after_postcode:
  "well_formed (insert ''postcode'' label_keys) (after_postcode bs)"
  and grows_after_postcode: "grows (after_labels bs) (after_postcode bs)"
proof -
  have "step_ok ''postcode'' label_keys (after_labels bs) (after_postcode bs)"
    unfolding after_postcode_def by (rule postcode_ok[OF wf_after_labels])
  then show "well_formed (insert ''postcode'' label_keys) (after_postcode bs)"
    and "grows (after_labels bs) (after_postcode bs)"
    by (simp_all add: step_ok_def)
qed

lemma wf_map_blocks:
  "well_formed (set FIELD_NAMES) (map_blocks bs)"
  and grows_map_blocks: "grows (after_postcode bs) (map_blocks bs)"
proof -
  have sub: "insert ''postcode'' label_keys \<subseteq> set FIELD_NAMES"
    by (simp add: label_keys_def FIELD_NAMES_def)
  have w: "well_formed (set FIELD_NAMES) (after_postcode bs)"
    by (rule wf_mono[OF wf_after_postcode sub]) simp
  have "''applicant_email'' \<in> set FIELD_NAMES" "''applicant_phone'' \<in> set FIELD_NAMES"
    by (simp_all add: FIELD_NAMES_def)
  from contact_loop_ok[OF w this]
  show "well_formed (set FIELD_NAMES) (map_blocks bs)" and "grows (after_postcode bs) (map_blocks bs)"
    unfolding map_blocks_stages by simp_all
qed

lemma distinct_entries:
  assumes "distinct (map fst fs)" "fst ` set fs \<subseteq> set FIELD_NAMES"
  shows "distinct (map fst (concat (map entries_of fs)))"
  using assms
proof (induction fs)
  case Nil
  then show ?case by simp
next
  case (Cons x fs)
  have x: "fst x \<in> set FIELD_NAMES" using Cons.prems(2) by simp
  have nk: "\<not> has_key (fst x) (kv # concat (map entries_of fs)) \<or> fst x = fst kv" for kv
    unfolding has_key_entries using Cons.prems(1) field_name_not_conf[OF x] by auto
  have a: "fst x \<notin> set (map fst (concat (map entries_of fs)))"
    using nk[of "(''document_type'', Str [])"] field_name_not_dt[OF x]
    by (simp add: has_key_def)
  have b: "fst x @ ''_confidence'' \<notin> set (map fst (concat (map entries_of fs)))"
  proof
    assume "fst x @ ''_confidence'' \<in> set (map fst (concat (map entries_of fs)))"
    then have "has_key (fst x @ ''_confidence'') ((''document_type'', Str []) # concat (map entries_of fs))"
      by (simp add: has_key_def)
    then consider "fst x @ ''_confidence'' = ''document_type''"
      | "fst x @ ''_confidence'' \<in> fst ` set fs"
      | "fst x @ ''_confidence'' \<in> (\<lambda>y. fst y @ ''_confidence'') ` set fs"
      unfolding has_key_entries by auto
    then show False
    proof cases
      case 1
      then have "take 11 (rev (fst x @ ''_confidence'')) = take 11 (rev ''document_type'')" by simp
      then show False by simp
    next
      case 2
      then have "fst x @ ''_confidence'' \<in> set FIELD_NAMES" using Cons.prems(2) by auto
      from field_name_not_conf[OF this] show False by blast
    next
      case 3
      then have "fst x \<in> fst ` set fs" by auto
      then show False using Cons.prems(1) by simp
    qed
  qed
  have c: "fst x \<noteq> fst x @ ''_confidence''" by simp
  from Cons.IH Cons.prems a b c show ?case
    by (simp add: entries_of_def)
qed

lemma conf_key_suffix:
  "k \<in> (\<lambda>y. fst y @ ''_confidence'') ` S \<Longrightarrow> take 11 (rev k) = rev ''_confidence''"
  by auto

lemma wf_distinct_keys:
  assumes "well_formed K r"
  shows "distinct (map fst (res_fields r))"
proof -
  from assms obtain d fs where
    f: "res_fields r = (''document_type'', Str d) # concat (map entries_of fs)"
    and dist: "distinct (map fst fs)" and k: "fst ` set fs \<subseteq> K" and kk: "K \<subseteq> set FIELD_NAMES"
    unfolding well_formed_def by blast
  have sub: "fst ` set fs \<subseteq> set FIELD_NAMES" using k kk by blast
  have "\<not> has_key ''document_type'' ((''x'', Str []) # concat (map entries_of fs))"
  proof
    assume "has_key ''document_type'' ((''x'', Str []) # concat (map entries_of fs))"
    then consider "''document_type'' \<in> fst ` set fs"
      | "''document_type'' \<in> (\<lambda>y. fst y @ ''_confidence'') ` set fs"
      unfolding has_key_entries by auto
    then show False
    proof cases
      case 1
      then have "''document_type'' \<in> set FIELD_NAMES" using sub by blast
      then show False by (simp add: FIELD_NAMES_def)
    next
      case 2
      from conf_key_suffix[OF this] show False by simp
    qed
  qed
  then have "''document_type'' \<notin> set (map fst (concat (map entries_of fs)))"
    by (simp add: has_key_def)
  with distinct_entries[OF dist sub] show ?thesis
    by (simp add: f)
qed

lemma wf_get_item:
  assumes "well_formed K r" "(k, v) \<in> set (res_fields r)"
  shows "get_item (res_fields r) k = Some v"
proof -
  have "distinct (map fst (rev (res_fields r)))"
    using wf_distinct_keys[OF assms(1)] unfolding rev_map[symmetric] distinct_rev .
  moreover have "(k, v) \<in> set (rev (res_fields r))" using assms(2) by simp
  ultimately show ?thesis
    unfolding get_item_def by (rule map_of_is_SomeI)
qed

lemma wf_evidence_lookup:
  assumes "well_formed K r" "(f, es) \<in> set (res_evidence_index r)"
  shows "map_of (res_evidence_index r) f = Some es"
proof -
  from assms(1) obtain fs :: "(string \<times> string \<times> ev_entry) list" where
    e: "res_evidence_index r = map (\<lambda>x. (fst x, [snd (snd x)])) fs"
    and dist: "distinct (map fst fs)"
    unfolding well_formed_def by blast
  have "map fst (res_evidence_index r) = map fst fs"
    unfolding e by (induction fs) simp_all
  then have "distinct (map fst (res_evidence_index r))" using dist by simp
  then show ?thesis using assms(2) by (rule map_of_is_SomeI)
qed


section \<open>What the invariant says about the result\<close>

lemma wf_map_fields: "well_formed (set FIELD_NAMES) (map_fields extracted_layout)"
  unfolding map_fields_def by (rule wf_map_blocks)

lemma startswith_append: "startswith k (k @ s)"
  by (induction k) simp_all

lemma endswith_append: "endswith k (s @ k)"
  by (simp add: endswith_def startswith_append)

lemma wf_populated:
  assumes "well_formed K r" "has_key f (res_fields r)" "f \<noteq> ''document_type''"
    "\<not> endswith ''_confidence'' f"
  shows "\<exists>e. get_item (res_fields r) (f @ ''_confidence'') = Some (Num (ev_confidence e))
             \<and> map_of (res_evidence_index r) f = Some [e]"
proof -
  from assms(1) obtain d and fs :: "(string \<times> string \<times> ev_entry) list" where
    f: "res_fields r = (''document_type'', Str d) # concat (map entries_of fs)"
    and e: "res_evidence_index r = map (\<lambda>x. (fst x, [snd (snd x)])) fs"
    unfolding well_formed_def by blast
  have "f \<notin> (\<lambda>x. fst x @ ''_confidence'') ` set fs"
    using assms(4) endswith_append by auto
  with assms(2,3) have "f \<in> fst ` set fs"
    unfolding f has_key_entries by simp
  then obtain v en where m: "(f, v, en) \<in> set fs" by auto
  then have "(f @ ''_confidence'', Num (ev_confidence en)) \<in> set (res_fields r)"
    unfolding f by (force simp: entries_of_def)
  then have 1: "get_item (res_fields r) (f @ ''_confidence'') = Some (Num (ev_confidence en))"
    by (rule wf_get_item[OF assms(1)])
  from m have "(f, [en]) \<in> set (res_evidence_index r)"
    unfolding e by force
  then have 2: "map_of (res_evidence_index r) f = Some [en]"
    by (rule wf_evidence_lookup[OF assms(1)])
  from 1 2 show ?thesis by blast
qed

lemma wf_document_type:
  assumes "well_formed K r"
  shows "\<not> has_key ''document_type_confidence'' (res_fields r)
         \<and> map_of (res_evidence_index r) ''document_type'' = None"
proof -
  from assms(1) obtain d and fs :: "(string \<times> string \<times> ev_entry) list" where
    f: "res_fields r = (''document_type'', Str d) # concat (map entries_of fs)"
    and e: "res_evidence_index r = map (\<lambda>x. (fst x, [snd (snd x)])) fs"
    and k: "fst ` set fs \<subseteq> K" and kk: "K \<subseteq> set FIELD_NAMES"
    unfolding well_formed_def by blast
  have sub: "fst ` set fs \<subseteq> set FIELD_NAMES" using k kk by blast
  have dt: "''document_type'' \<notin> fst ` set fs"
    using sub by (auto simp: FIELD_NAMES_def)
  have dtc: "''document_type_confidence'' \<notin> fst ` set fs"
    using sub by (auto simp: FIELD_NAMES_def)
  have "''document_type_confidence'' \<notin> (\<lambda>x. fst x @ ''_confidence'') ` set fs"
  proof
    assume "''document_type_confidence'' \<in> (\<lambda>x. fst x @ ''_confidence'') ` set fs"
    then obtain x where x: "x \<in> set fs" and "''document_type'' @ ''_confidence'' = fst x @ ''_confidence''"
      by auto
    then have "fst x = ''document_type''" by (simp only: append_same_eq)
    with x dt show False by force
  qed
  with dtc have 1: "\<not> has_key ''document_type_confidence'' (res_fields r)"
    unfolding f has_key_entries by simp
  have "fst ` set (res_evidence_index r) = fst ` set fs"
    unfolding e by force
  with dt have 2: "map_of (res_evidence_index r) ''document_type'' = None"
    by (simp add: map_of_eq_None_iff)
  from 1 2 show ?thesis by simp
qed


section \<open>The value a strategy assigns is the value returned\<close>

lemma final_of_assign:
  assumes w: "well_formed K r" and g: "g \<in> set FIELD_NAMES" and nk: "\<not> has_key g (res_fields r)"
    and gr: "grows (assign_field r g v c b s dt) r'" and w': "well_formed K' r'"
  shows "assigned r' g v c (made_entry b s c dt)"
proof -
  have "g \<notin> fst ` set (res_evidence_index r)"
    using wf_has_key[OF w g] nk by simp
  then have none: "map_of (res_evidence_index r) g = None"
    by (simp add: map_of_eq_None_iff)
  have "(g, Str v) \<in> set (res_fields (assign_field r g v c b s dt))"
    and "(g @ ''_confidence'', Num c) \<in> set (res_fields (assign_field r g v c b s dt))"
    by (simp_all add: assign_field_def set_item_def)
  then have 1: "(g, Str v) \<in> set (res_fields r')"
    and 2: "(g @ ''_confidence'', Num c) \<in> set (res_fields r')"
    using gr unfolding grows_def by blast+
  have "(g, [made_entry b s c dt]) \<in> set (res_evidence_index (assign_field r g v c b s dt))"
    using none by (simp add: assign_field_def add_ev_def Let_def made_entry_def)
  then have 3: "(g, [made_entry b s c dt]) \<in> set (res_evidence_index r')"
    using gr unfolding grows_def by blast
  show ?thesis
    unfolding assigned_def
    using wf_get_item[OF w' 1] wf_get_item[OF w' 2] wf_evidence_lookup[OF w' 3] by simp
qed

lemma grows_from_postcode: "grows (after_postcode bs) (map_blocks bs)"
  by (rule grows_map_blocks)

lemma grows_from_labels: "grows (after_labels bs) (map_blocks bs)"
  by (rule grows_trans[OF grows_after_postcode grows_from_postcode])

lemma grows_from_proposed_use: "grows (after_proposed_use bs) (map_blocks bs)"
  by (rule grows_trans[OF grows_after_labels grows_from_labels])

lemma grows_from_site_address: "grows (after_site_address bs) (map_blocks bs)"
  by (rule grows_trans[OF grows_after_proposed_use grows_from_proposed_use])

lemma grows_from_application_ref: "grows (after_application_ref bs) (map_blocks bs)"
  by (rule grows_trans[OF grows_after_site_address grows_from_site_address])

lemma application_ref_final:
  assumes "first_some (\<lambda>b. re_search True APPREF_RE (block_text b)) (take 400 bs) = Some (b, m)"
  shows "assigned (map_blocks bs) ''application_ref'' (upper (group 1 m))
           (if substr_in ''PP-'' (upper (group 1 m)) then 0.9 else 0.8)
           (made_entry b (block_text b) (if substr_in ''PP-'' (upper (group 1 m)) then 0.9 else 0.8)
              (classify_document bs))"
proof -
  have w: "well_formed {} (initial bs)" by (simp add: initial_def wf_init)
  have g: "''application_ref'' \<in> set FIELD_NAMES" by (simp add: FIELD_NAMES_def)
  have nk: "\<not> has_key ''application_ref'' (res_fields (initial bs))"
    by (rule wf_not_has_key[OF w g]) simp
  have eq: "after_application_ref bs = assign_field (initial bs) ''application_ref'' (upper (group 1 m))
           (if substr_in ''PP-'' (upper (group 1 m)) then 0.9 else 0.8) b (block_text b) (classify_document bs)"
    by (simp add: after_application_ref_def map_application_ref_def assms Let_def)
  show ?thesis
    by (rule final_of_assign[OF w g nk _ wf_map_blocks])
       (use grows_from_application_ref[of bs] in \<open>unfold eq\<close>)
qed

lemma site_address_final:
  assumes "pick_site_address bs = Some (addr, src, conf)" "addr \<noteq> []"
  shows "assigned (map_blocks bs) ''site_address'' addr conf
           (made_entry src (block_text src) conf (classify_document bs))"
proof -
  note w = wf_after_application_ref[of bs]
  have g: "''site_address'' \<in> set FIELD_NAMES" by (simp add: FIELD_NAMES_def)
  have nk: "\<not> has_key ''site_address'' (res_fields (after_application_ref bs))"
    by (rule wf_not_has_key[OF w g]) simp
  have eq: "after_site_address bs = assign_field (after_application_ref bs) ''site_address'' addr conf
              src (block_text src) (classify_document bs)"
    by (simp add: after_site_address_def map_site_address_def assms nk)
  show ?thesis
    by (rule final_of_assign[OF w g nk _ wf_map_blocks])
       (use grows_from_site_address[of bs] in \<open>unfold eq\<close>)
qed

lemma proposed_use_primary_final:
  assumes "first_some prior_approval_hit (take 100 bs) = Some (b, t, prop_text)"
  shows "assigned (map_blocks bs) ''proposed_use'' prop_text 0.9
           (made_entry b t 0.9 (classify_document bs))"
proof -
  note w = wf_after_site_address[of bs]
  have g: "''proposed_use'' \<in> set FIELD_NAMES" by (simp add: FIELD_NAMES_def)
  have nk: "\<not> has_key ''proposed_use'' (res_fields (after_site_address bs))"
    by (rule wf_not_has_key[OF w g]) simp
  have eq: "after_proposed_use bs = assign_field (after_site_address bs) ''proposed_use'' prop_text 0.9
              b t (classify_document bs)"
    by (simp add: after_proposed_use_def map_proposed_use_def assms nk has_key_assign)
  show ?thesis
    by (rule final_of_assign[OF w g nk _ wf_map_blocks])
       (use grows_from_proposed_use[of bs] in \<open>unfold eq\<close>)
qed

lemma postcode_final:
  assumes "sort_by_confidence (postcode_candidates bs) = (pc, b, conf, idx) # rest" "0.3 \<le> conf"
  shows "assigned (map_blocks bs) ''postcode'' pc conf
           (made_entry b (block_text b) conf (classify_document bs))"
proof -
  note w = wf_after_labels[of bs]
  have g: "''postcode'' \<in> set FIELD_NAMES" by (simp add: FIELD_NAMES_def)
  have nk: "\<not> has_key ''postcode'' (res_fields (after_labels bs))"
    by (rule wf_not_has_key[OF w g]) (simp add: label_keys_def)
  have ne: "postcode_candidates bs \<noteq> []"
    using assms(1) by (auto simp: sort_by_confidence_def)
  have eq: "after_postcode bs = assign_field (after_labels bs) ''postcode'' pc conf
              b (block_text b) (classify_document bs)"
    using assms(2) by (simp add: after_postcode_def map_postcode_def assms(1) nk ne)
  show ?thesis
    by (rule final_of_assign[OF w g nk _ wf_map_blocks])
       (use grows_from_postcode[of bs] in \<open>unfold eq\<close>)
qed


section \<open>Evaluating the model on concrete texts\<close>

text \<open>
  The code points of the ASCII characters, and the characters of the code points that
  the case conversions and the formatting of integers produce. With these tables the
  simplifier evaluates the character classes by comparing numerals.
\<close>

lemma cp_table:
    "cp (CHR 0x09) = 9"
    "cp (CHR 0x0A) = 10"
    "cp (CHR 0x0B) = 11"
    "cp (CHR 0x0C) = 12"
    "cp (CHR 0x0D) = 13"
    "cp (CHR 0x20) = 32"
    "cp (CHR 0x21) = 33"
    "cp (CHR 0x22) = 34"
    "cp (CHR 0x23) = 35"
    "cp (CHR 0x24) = 36"
    "cp (CHR 0x25) = 37"
    "cp (CHR 0x26) = 38"
    "cp (CHR 0x27) = 39"
    "cp (CHR 0x28) = 40"
    "cp (CHR 0x29) = 41"
    "cp (CHR 0x2A) = 42"
    "cp (CHR 0x2B) = 43"
    "cp (CHR 0x2C) = 44"
    "cp (CHR 0x2D) = 45"
    "cp (CHR 0x2E) = 46"
    "cp (CHR 0x2F) = 47"
    "cp (CHR 0x30) = 48"
    "cp (CHR 0x31) = 49"
    "cp (CHR 0x32) = 50"
    "cp (CHR 0x33) = 51"
    "cp (CHR 0x34) = 52"
    "cp (CHR 0x35) = 53"
    "cp (CHR 0x36) = 54"
    "cp (CHR 0x37) = 55"
    "cp (CHR 0x38) = 56"
    "cp (CHR 0x39) = 57"
    "cp (CHR 0x3A) = 58"
    "cp (CHR 0x3B) = 59"
    "cp (CHR 0x3C) = 60"
    "cp (CHR 0x3D) = 61"
    "cp (CHR 0x3E) = 62"
    "cp (CHR 0x3F) = 63"
    "cp (CHR 0x40) = 64"
    "cp (CHR 0x41) = 65"
    "cp (CHR 0x42) = 66"
    "cp (CHR 0x43) = 67"
    "cp (CHR 0x44) = 68"
    "cp (CHR 0x45) = 69"
    "cp (CHR 0x46) = 70"
    "cp (CHR 0x47) = 71"
    "cp (CHR 0x48) = 72"
    "cp (CHR 0x49) = 73"
    "cp (CHR 0x4A) = 74"
    "cp (CHR 0x4B) = 75"
    "cp (CHR 0x4C) = 76"
    "cp (CHR 0x4D) = 77"
    "cp (CHR 0x4E) = 78"
    "cp (CHR 0x4F) = 79"
    "cp (CHR 0x50) = 80"
    "cp (CHR 0x51) = 81"
    "cp (CHR 0x52) = 82"
    "cp (CHR 0x53) = 83"
    "cp (CHR 0x54) = 84"
    "cp (CHR 0x55) = 85"
    "cp (CHR 0x56) = 86"
    "cp (CHR 0x57) = 87"
    "cp (CHR 0x58) = 88"
    "cp (CHR 0x59) = 89"
    "cp (CHR 0x5A) = 90"
    "cp (CHR 0x5B) = 91"
    "cp (CHR 0x5C) = 92"
    "cp (CHR 0x5D) = 93"
    "cp (CHR 0x5E) = 94"
    "cp (CHR 0x5F) = 95"
    "cp (CHR 0x60) = 96"
    "cp (CHR 0x61) = 97"
    "cp (CHR 0x62) = 98"
    "cp (CHR 0x63) = 99"
    "cp (CHR 0x64) = 100"
    "cp (CHR 0x65) = 101"
    "cp (CHR 0x66) = 102"
    "cp (CHR 0x67) = 103"
    "cp (CHR 0x68) = 104"
    "cp (CHR 0x69) = 105"
    "cp (CHR 0x6A) = 106"
    "cp (CHR 0x6B) = 107"
    "cp (CHR 0x6C) = 108"
    "cp (CHR 0x6D) = 109"
    "cp (CHR 0x6E) = 110"
    "cp (CHR 0x6F) = 111"
    "cp (CHR 0x70) = 112"
    "cp (CHR 0x71) = 113"
    "cp (CHR 0x72) = 114"
    "cp (CHR 0x73) = 115"
    "cp (CHR 0x74) = 116"
    "cp (CHR 0x75) = 117"
    "cp (CHR 0x76) = 118"
    "cp (CHR 0x77) = 119"
    "cp (CHR 0x78) = 120"
    "cp (CHR 0x79) = 121"
    "cp (CHR 0x7A) = 122"
    "cp (CHR 0x7B) = 123"
    "cp (CHR 0x7C) = 124"
    "cp (CHR 0x7D) = 125"
    "cp (CHR 0x7E) = 126"
  by (simp_all add: cp_def)

lemma char_of_eqI: "of_char c = (n::nat) \<Longrightarrow> char_of n = c"
  by auto

lemma char_of_table:
    "char_of (48::nat) = CHR 0x30"
    "char_of (49::nat) = CHR 0x31"
    "char_of (50::nat) = CHR 0x32"
    "char_of (51::nat) = CHR 0x33"
    "char_of (52::nat) = CHR 0x34"
    "char_of (53::nat) = CHR 0x35"
    "char_of (54::nat) = CHR 0x36"
    "char_of (55::nat) = CHR 0x37"
    "char_of (56::nat) = CHR 0x38"
    "char_of (57::nat) = CHR 0x39"
    "char_of (65::nat) = CHR 0x41"
    "char_of (66::nat) = CHR 0x42"
    "char_of (67::nat) = CHR 0x43"
    "char_of (68::nat) = CHR 0x44"
    "char_of (69::nat) = CHR 0x45"
    "char_of (70::nat) = CHR 0x46"
    "char_of (71::nat) = CHR 0x47"
    "char_of (72::nat) = CHR 0x48"
    "char_of (73::nat) = CHR 0x49"
    "char_of (74::nat) = CHR 0x4A"
    "char_of (75::nat) = CHR 0x4B"
    "char_of (76::nat) = CHR 0x4C"
    "char_of (77::nat) = CHR 0x4D"
    "char_of (78::nat) = CHR 0x4E"
    "char_of (79::nat) = CHR 0x4F"
    "char_of (80::nat) = CHR 0x50"
    "char_of (81::nat) = CHR 0x51"
    "char_of (82::nat) = CHR 0x52"
    "char_of (83::nat) = CHR 0x53"
    "char_of (84::nat) = CHR 0x54"
    "char_of (85::nat) = CHR 0x55"
    "char_of (86::nat) = CHR 0x56"
    "char_of (87::nat) = CHR 0x57"
    "char_of (88::nat) = CHR 0x58"
    "char_of (89::nat) = CHR 0x59"
    "char_of (90::nat) = CHR 0x5A"
    "char_of (97::nat) = CHR 0x61"
    "char_of (98::nat) = CHR 0x62"
    "char_of (99::nat) = CHR 0x63"
    "char_of (100::nat) = CHR 0x64"
    "char_of (101::nat) = CHR 0x65"
    "char_of (102::nat) = CHR 0x66"
    "char_of (103::nat) = CHR 0x67"
    "char_of (104::nat) = CHR 0x68"
    "char_of (105::nat) = CHR 0x69"
    "char_of (106::nat) = CHR 0x6A"
    "char_of (107::nat) = CHR 0x6B"
    "char_of (108::nat) = CHR 0x6C"
    "char_of (109::nat) = CHR 0x6D"
    "char_of (110::nat) = CHR 0x6E"
    "char_of (111::nat) = CHR 0x6F"
    "char_of (112::nat) = CHR 0x70"
    "char_of (113::nat) = CHR 0x71"
    "char_of (114::nat) = CHR 0x72"
    "char_of (115::nat) = CHR 0x73"
    "char_of (116::nat) = CHR 0x74"
    "char_of (117::nat) = CHR 0x75"
    "char_of (118::nat) = CHR 0x76"
    "char_of (119::nat) = CHR 0x77"
    "char_of (120::nat) = CHR 0x78"
    "char_of (121::nat) = CHR 0x79"
    "char_of (122::nat) = CHR 0x7A"
  by (rule char_of_eqI, simp)+

lemmas chr_eval = cp_table char_of_table between_def is_space_def is_digit_def is_upper_def
  is_lower_cased_def is_alpha_def is_word_def lower_chr_def upper_chr_def digit_chr_def

lemmas re_eval = re_search_def re_match_def match_here_def word_boundary_def hi_open_def
  hi_dec_def seqs_def lit_def AZ_def digit_def space_def re_split1_def split_colon_def

lemmas norm_eval = norm_def strip_def re_sub_def sub_from.simps


section \<open>The prior approval scenario\<close>

lemma norm_prior_approval_text: "norm prior_approval_text = prior_approval_text"
  by (simp add: prior_approval_text_def norm_eval re_eval chr_eval)

lemma prior_approval_hit_example:
  "prior_approval_hit (content_block prior_approval_text)
     = Some (prior_approval_text, ''Prior Approval: change of use to a single dwelling'')"
proof -
  have l: "lower prior_approval_text = ''i/we hereby apply for prior approval: change of use to a single dwelling''"
    by (simp add: prior_approval_text_def lower_def chr_eval)
  have c: "substr_in ''i/we hereby apply for prior approval'' ''i/we hereby apply for prior approval: change of use to a single dwelling''"
    by simp
  have s: "re_split1 False PRIOR_APPROVAL_SPLIT prior_approval_text = [''I/We hereby apply '', '' Prior Approval: change of use to a single dwelling'']"
    by (simp add: prior_approval_text_def PRIOR_APPROVAL_SPLIT_def re_eval chr_eval)
  have n: "norm '' Prior Approval: change of use to a single dwelling'' = ''Prior Approval: change of use to a single dwelling''"
    by (simp add: norm_eval re_eval chr_eval)
  show ?thesis
    by (simp add: prior_approval_hit_def content_block_def block_text_def norm_prior_approval_text l c s n)
qed


section \<open>The site location scenario\<close>

lemma norm_site_location: "norm ''Site Location'' = ''Site Location''"
  by (simp add: norm_eval re_eval chr_eval)

lemma norm_address_line: "norm ''Address Line 1: 12 Example Street'' = ''Address Line 1: 12 Example Street''"
  by (simp add: norm_eval re_eval chr_eval)

lemma norm_postcode_line: "norm ''Postcode: B12 3CD'' = ''Postcode: B12 3CD''"
  by (simp add: norm_eval re_eval chr_eval)

lemma lower_site_location: "lower ''Site Location'' = ''site location''"
  by (simp add: lower_def chr_eval)

lemma lower_address_line: "lower ''Address Line 1: 12 Example Street'' = ''address line 1: 12 example street''"
  by (simp add: lower_def chr_eval)

lemma lower_postcode_line: "lower ''Postcode: B12 3CD'' = ''postcode: b12 3cd''"
  by (simp add: lower_def chr_eval)

lemmas site_location_texts = norm_site_location norm_address_line norm_postcode_line
  lower_site_location lower_address_line lower_postcode_line

lemma header_example: "first_index is_header_block site_location_blocks = Some 0"
  by (simp add: site_location_blocks_def content_block_def is_header_block_def block_text_def
      section_headers_def site_location_texts)

lemma step1_example:
  "section_step site_location_blocks 0
     \<lparr>property_name = None, address_line1 = None, address_line2 = None, town_city = None, postcode = None\<rparr> (Suc 0)
   = \<lparr>property_name = None, address_line1 = Some ''12 Example Street'',
      address_line2 = Some ''12 Example Street'', town_city = None, postcode = None\<rparr>"
proof -
  have n: "norm '' 12 Example Street'' = ''12 Example Street''"
    by (simp add: norm_eval re_eval chr_eval)
  have s: "split_colon ''Address Line 1: 12 Example Street'' = [''Address Line 1'', '' 12 Example Street'']"
    by (simp add: re_eval chr_eval)
  have noise: "\<not> is_noise ''Address Line 1: 12 Example Street''"
    by (simp add: is_noise_def lower_address_line)
  show ?thesis
    by (simp add: section_step_def site_location_blocks_def content_block_def block_text_def
        site_location_texts noise section_labels_def labelled_value_def s n truthy_def)
qed

lemma step2_example:
  "section_step site_location_blocks 0
     \<lparr>property_name = None, address_line1 = Some ''12 Example Street'',
      address_line2 = Some ''12 Example Street'', town_city = None, postcode = None\<rparr> 2
   = \<lparr>property_name = None, address_line1 = Some ''12 Example Street'',
      address_line2 = Some ''12 Example Street'', town_city = None, postcode = Some ''B12 3CD''\<rparr>"
proof -
  have s: "split_colon ''Postcode: B12 3CD'' = [''Postcode'', '' B12 3CD'']"
    by (simp add: re_eval chr_eval)
  have p: "postcode_in '' B12 3CD'' None = Some ''B12 3CD''"
    by (simp add: postcode_in_def POSTCODE_RE_def postcode_pattern_def group_def upper_def re_eval chr_eval)
  have noise: "\<not> is_noise ''Postcode: B12 3CD''"
    by (simp add: is_noise_def lower_postcode_line)
  show ?thesis
    by (simp add: section_step_def site_location_blocks_def content_block_def block_text_def
        site_location_texts noise section_labels_def section_unlabelled_def labelled_value_def s p truthy_def)
qed

lemma section_example:
  "extract_site_address_from_section site_location_blocks
     = Some (''12 Example Street, 12 Example Street, B12 3CD'', content_block ''Site Location'', 0.95)"
proof -
  have r: "[Suc 0 ..< 3] = [1, 2]" by (simp add: upt_rec)
  have len: "length site_location_blocks = 3" "site_location_blocks ! 0 = content_block ''Site Location''"
    by (simp_all add: site_location_blocks_def)
  show ?thesis
    by (simp add: extract_site_address_from_section_def header_example len r step1_example step2_example
        address_parts_of_def part_def)
qed

lemma pick_example:
  "pick_site_address site_location_blocks
     = Some (''12 Example Street, 12 Example Street, B12 3CD'', content_block ''Site Location'', 0.95)"
  by (simp add: pick_site_address_def section_example accepted_def)


section \<open>An application reference through the pipeline\<close>

lemma norm_ref: "norm ''Ref PP-12345678'' = ''Ref PP-12345678''"
  by (simp add: norm_eval re_eval chr_eval)

lemma lower_ref: "lower ''Ref PP-12345678'' = ''ref pp-12345678''"
  by (simp add: lower_def chr_eval)

lemma text_ref: "block_text ref_block = ''Ref PP-12345678''"
  by (simp add: block_text_def ref_block_def)

lemma classify_ref: "classify_document [ref_block] = ''unknown''"
  by (simp add: classify_document_def corpus_def text_ref norm_ref lower_ref classify_text_def
      priority_order_def classify_priority_def classify_rest_def DOC_TYPE_HINTS_def hint_score_def
      scale_hint_def ws0_def re_eval chr_eval)

lemma appref_ref:
  "re_search True APPREF_RE ''Ref PP-12345678''
     = Some \<lparr>m_start = 4, m_end = 15, m_groups = [(Suc 0, ''PP-12345678'')]\<rparr>"
  by (simp add: APPREF_RE_def re_eval chr_eval)

lemma noise_ref: "\<not> is_noise ''Ref PP-12345678''"
  by (simp add: is_noise_def lower_ref)

lemma council_ref: "\<not> is_council_contact ''Ref PP-12345678''"
  by (simp add: is_council_contact_def lower_ref)

lemma pick_site_ref: "pick_site_address [ref_block] = None"
  by (simp add: pick_site_address_def extract_site_address_from_section_def is_header_block_def
      section_headers_def extract_address_from_demolition_pattern_def demolition_hit_def
      accepted_def enumerate_list_def heuristic_step_def text_ref norm_ref lower_ref noise_ref
      GRID_PAIR_def GRID_NUMBER_def ADDRESS_LIKE_def re_eval chr_eval)

lemma prior_ref: "prior_approval_hit ref_block = None"
  by (simp add: prior_approval_hit_def text_ref norm_ref lower_ref)

lemma use_ref: "pick_proposed_use [ref_block] = None"
  by (simp add: pick_proposed_use_def proposed_use_hit_def text_ref norm_ref noise_ref
      PROPOSAL_HINTS_def re_eval chr_eval)

lemma foldl_unchanged: "(\<And>x. x \<in> set xs \<Longrightarrow> f r x = r) \<Longrightarrow> foldl f r xs = r"
  by (induction xs) simp_all

lemma label_search_ref:
  "fp \<in> set LABEL_PATTERNS \<Longrightarrow> \<not> list_ex (\<lambda>p. re_search False p ''ref pp-12345678'' \<noteq> None) (snd fp)"
  by (auto simp add: LABEL_PATTERNS_def re_eval chr_eval)

lemma labels_ref: "fp \<in> set LABEL_PATTERNS \<Longrightarrow> map_label [ref_block] d r fp = r"
  using label_search_ref[of fp]
  by (simp add: map_label_def text_ref norm_ref lower_ref)

lemma postcode_ref: "postcode_candidates [ref_block] = []"
  by (simp add: postcode_candidates_def enumerate_list_def postcode_candidate_def
     text_ref POSTCODE_RE_def postcode_pattern_def re_eval chr_eval)

lemma email_ref: "re_search True EMAIL_RE ''Ref PP-12345678'' = None"
  by (simp add: EMAIL_RE_def re_eval chr_eval)

lemma phone_ref: "re_search False PHONE_RE ''Ref PP-12345678'' = None"
  by (simp add: PHONE_RE_def re_eval chr_eval)

lemma contact_ref: "map_contact [ref_block] d r (0, ref_block) = r"
  by (simp add: map_contact_def map_email_def map_phone_def text_ref council_ref email_ref phone_ref
      Let_def)

lemma block_id_ref: "block_id_of ref_block = ''p1b''" "block_page ref_block = 1"
  by (simp_all add: block_id_of_def block_page_def ref_block_def str_int_def str_nat.simps chr_eval)

lemma after_application_ref_ref: "after_application_ref [ref_block] = ref_result"
proof -
  have u: "upper ''PP-12345678'' = ''PP-12345678''" by (simp add: upper_def chr_eval)
  show ?thesis
    by (simp add: after_application_ref_def initial_def classify_ref map_application_ref_def
        appref_ref group_def u assign_field_def set_item_def add_ev_def block_id_ref text_ref
        norm_ref ref_result_def Let_def)
qed

lemma after_site_address_ref: "after_site_address [ref_block] = ref_result"
  by (simp add: after_site_address_def after_application_ref_ref map_site_address_def pick_site_ref)

lemma after_proposed_use_ref: "after_proposed_use [ref_block] = ref_result"
  by (simp add: after_proposed_use_def after_site_address_ref map_proposed_use_def prior_ref use_ref)

lemma after_labels_ref: "after_labels [ref_block] = ref_result"
  unfolding after_labels_def after_proposed_use_ref
  by (rule foldl_unchanged) (rule labels_ref)

lemma after_postcode_ref: "after_postcode [ref_block] = ref_result"
  by (simp add: after_postcode_def after_labels_ref map_postcode_def postcode_ref)

lemma map_blocks_ref: "map_blocks [ref_block] = ref_result"
  by (simp add: map_blocks_stages after_postcode_ref enumerate_list_def contact_ref)

lemma text_block_evidence_ref:
  "text_block_evidence [] (0, ref_block)
     = [(''text_block_0'', TextBlockEv ''Ref PP-12345678'' ''Ref PP-12345678'' (Some 1))]"
  by (simp add: text_block_evidence_def put_def ref_block_def str_nat.simps chr_eval Let_def)

lemma pipeline_ref:
  "extract_from_pdf_bytes ref_layout =
     Inr \<lparr>out_fields = [(''document_type'', Str ''unknown''), (''application_ref'', Str ''PP-12345678''),
                       (''application_ref_confidence'', Num 0.9)],
          out_evidence_index =
            [(''text_block_0'', TextBlockEv ''Ref PP-12345678'' ''Ref PP-12345678'' (Some 1)),
             (''application_ref'', FieldEv
                [\<lparr>ev_page = 1, ev_block_id = ''p1b'', ev_snippet = ''Ref PP-12345678'',
                  ev_confidence = 0.9, ev_source_doc_type = Some ''unknown''\<rparr>])],
          out_text_blocks = [ref_block\<lparr>b_index := Some 0\<rparr>],
          out_tables = []\<rparr>"
  by (simp add: extract_from_pdf_bytes_def ref_layout_def map_fields_def map_blocks_ref ref_result_def
      enumerate_list_def text_block_evidence_ref put_def set_index_def Let_def)

lemma block_id_indexed_ref: "block_id_of (ref_block\<lparr>b_index := Some 0\<rparr>) = ''p1b0''"
  by (simp add: block_id_of_def block_page_def ref_block_def str_int_def str_nat.simps chr_eval)


section \<open>The example layouts\<close>

lemma map_fields_blocks_layout: "map_fields (blocks_layout bs) = map_blocks bs"
  by (simp add: map_fields_def blocks_layout_def)

lemma map_fields_ref: "map_fields ref_layout = ref_result"
  by (simp add: map_fields_def ref_layout_def map_blocks_ref)


section \<open>The empty layout\<close>

lemma classify_empty: "classify_document [] = ''unknown''"
  by (simp add: classify_document_def corpus_def lower_def classify_text_def
      priority_order_def classify_priority_def classify_rest_def DOC_TYPE_HINTS_def hint_score_def
      scale_hint_def ws0_def re_eval chr_eval)

lemma map_blocks_empty:
  "map_blocks [] = \<lparr>res_fields = [(''document_type'', Str ''unknown'')], res_evidence_index = []\<rparr>"
proof -
  have site: "pick_site_address [] = None"
    by (simp add: pick_site_address_def extract_site_address_from_section_def
        extract_address_from_demolition_pattern_def accepted_def enumerate_list_def)
  have labels: "foldl (map_label [] d) r LABEL_PATTERNS = r" for d r
    by (rule foldl_unchanged) (simp add: map_label_def)
  show ?thesis
    by (simp add: map_blocks_stages after_postcode_def after_labels_def after_proposed_use_def
        after_site_address_def after_application_ref_def initial_def classify_empty set_item_def
        map_application_ref_def map_site_address_def site map_proposed_use_def
        pick_proposed_use_def labels map_postcode_def postcode_candidates_def
        enumerate_list_def Let_def)
qed


section \<open>The classifier keeps the highest score\<close>

lemma classify_priority_score:
  assumes "d \<in> fst ` set DOC_TYPE_HINTS"
  shows "classify_priority txt best d
           = (if snd best < type_score d txt then (d, type_score d txt) else best)"
proof -
  from assms obtain hints where "map_of DOC_TYPE_HINTS d = Some hints"
    by (metis map_of_eq_None_iff not_None_eq)
  then show ?thesis
    by (simp add: classify_priority_def type_score_def Let_def)
qed

lemma priority_types_have_hints: "set priority_order \<subseteq> fst ` set DOC_TYPE_HINTS"
  by (simp add: priority_order_def DOC_TYPE_HINTS_def)

lemma classify_text_application_form:
  assumes "0 < type_score ''application_form'' txt"
    and "\<forall>d\<in>set priority_order. type_score d txt \<le> type_score ''application_form'' txt"
  shows "classify_text txt = ''application_form''"
proof -
  let ?a = "type_score ''application_form'' txt"
  have stay: "foldl (classify_priority txt) (''application_form'', ?a) ds = (''application_form'', ?a)"
    if "set ds \<subseteq> set priority_order" for ds
    using that
  proof (induction ds)
    case Nil
    then show ?case by simp
  next
    case (Cons d ds)
    then have d: "d \<in> set priority_order" by simp
    then have "d \<in> fst ` set DOC_TYPE_HINTS" using priority_types_have_hints by blast
    moreover have "\<not> ?a < type_score d txt" using assms(2) d by (simp add: not_less)
    ultimately have "classify_priority txt (''application_form'', ?a) d = (''application_form'', ?a)"
      by (simp add: classify_priority_score)
    with Cons show ?case by simp
  qed
  have first: "classify_priority txt (''unknown'', 0) ''application_form'' = (''application_form'', ?a)"
    using assms(1) priority_types_have_hints
    by (subst classify_priority_score) (auto simp: priority_order_def)
  define others where
    "others = [''site_notice'', ''site_plan'', ''design_statement'', ''heritage'', ''drawing'']"
  have po: "priority_order = ''application_form'' # others"
    by (simp add: priority_order_def others_def)
  have "set others \<subseteq> set priority_order"
    unfolding po by (rule set_subset_Cons)
  from stay[OF this]
  have "foldl (classify_priority txt) (''unknown'', 0) priority_order = (''application_form'', ?a)"
    by (simp add: po first)
  then show ?thesis
    using assms(1) by (simp add: classify_text_def Let_def)
qed

lemma corpus_mixed: "corpus mixed_vocabulary_blocks = ''prior approval existing proposed''"
  by (simp add: corpus_def mixed_vocabulary_blocks_def content_block_def block_text_def lower_def
      norm_eval re_eval chr_eval)

lemma corpus_tied: "corpus tied_vocabulary_blocks = ''prior approval proposed''"
  by (simp add: corpus_def tied_vocabulary_blocks_def content_block_def block_text_def lower_def
      norm_eval re_eval chr_eval)

lemmas score_eval = type_score_def DOC_TYPE_HINTS_def hint_score_def scale_hint_def ws0_def

lemma scores_mixed:
  "type_score ''application_form'' ''prior approval existing proposed'' = 1"
  "type_score ''site_notice'' ''prior approval existing proposed'' = 0"
  "type_score ''site_plan'' ''prior approval existing proposed'' = 0"
  "type_score ''design_statement'' ''prior approval existing proposed'' = 0"
  "type_score ''heritage'' ''prior approval existing proposed'' = 0"
  "type_score ''drawing'' ''prior approval existing proposed'' = 2"
  by (simp_all add: score_eval re_eval chr_eval)

lemma scores_tied:
  "type_score ''application_form'' ''prior approval proposed'' = 1"
  "type_score ''site_notice'' ''prior approval proposed'' = 0"
  "type_score ''site_plan'' ''prior approval proposed'' = 0"
  "type_score ''design_statement'' ''prior approval proposed'' = 0"
  "type_score ''heritage'' ''prior approval proposed'' = 0"
  "type_score ''drawing'' ''prior approval proposed'' = 1"
  by (simp_all add: score_eval re_eval chr_eval)

lemma classify_text_by_scores:
  "classify_text txt =
     fst (let best = foldl (\<lambda>best d. if snd best < type_score d txt then (d, type_score d txt) else best)
                       (''unknown'', 0) priority_order
          in if snd best = 0 then foldl (classify_rest txt) best DOC_TYPE_HINTS else best)"
proof -
  have "foldl (classify_priority txt) b ds
          = foldl (\<lambda>best d. if snd best < type_score d txt then (d, type_score d txt) else best) b ds"
    if "set ds \<subseteq> set priority_order" for b ds
    using that
  proof (induction ds arbitrary: b)
    case Nil
    then show ?case by simp
  next
    case (Cons d ds)
    then have "d \<in> fst ` set DOC_TYPE_HINTS" using priority_types_have_hints by auto
    then have "classify_priority txt b d
                 = (if snd b < type_score d txt then (d, type_score d txt) else b)"
      by (rule classify_priority_score)
    with Cons show ?case by simp
  qed
  then show ?thesis
    by (simp add: classify_text_def Let_def)
qed


section \<open>Ranking the postcode candidates\<close>

lemma set_enumerate_list: "set (enumerate_list xs) = {(i, xs ! i) | i. i < length xs}"
proof -
  have "set (zip [0..<length xs] xs) = {(i, xs ! i) | i. i < length xs}"
  proof (intro set_eqI iffI)
    fix p assume "p \<in> set (zip [0..<length xs] xs)"
    then obtain j where "j < length xs" "p = ([0..<length xs] ! j, xs ! j)"
      by (auto simp: set_zip)
    then show "p \<in> {(i, xs ! i) | i. i < length xs}" by simp
  next
    fix p assume "p \<in> {(i, xs ! i) | i. i < length xs}"
    then obtain i where i: "i < length xs" "p = (i, xs ! i)" by blast
    then have "p = ([0..<length xs] ! i, xs ! i)" by simp
    with i(1) show "p \<in> set (zip [0..<length xs] xs)"
      unfolding set_zip by (auto intro!: exI[of _ i])
  qed
  then show ?thesis by (simp add: enumerate_list_def)
qed

lemma set_map_filter: "set (List.map_filter f xs) = {y. \<exists>x\<in>set xs. f x = Some y}"
  by (induction xs) (auto simp: List.map_filter_simps split: option.splits)

lemma candidate_iff:
  "c \<in> set (postcode_candidates blocks)
     \<longleftrightarrow> (\<exists>i. i < length blocks \<and> i < 400 \<and> postcode_candidate blocks (i, blocks ! i) = Some c)"
  by (auto simp: postcode_candidates_def set_map_filter set_enumerate_list)

lemma candidate_shape:
  assumes "postcode_candidate blocks (i, b) = Some c"
  shows "fst (snd c) = b \<and> snd (snd (snd c)) = i"
  using assms by (auto simp: postcode_candidate_def Let_def split: option.splits)

lemma po_box_candidate:
  assumes "substr_in ''po box'' (lower (block_text b))"
    and "re_search True POSTCODE_RE (block_text b) \<noteq> None"
  shows "\<exists>pc. postcode_candidate blocks (i, b) = Some (pc, b, 0.1, i)"
  using assms by (auto simp: postcode_candidate_def Let_def)

lemma sort_by_confidence_head:
  assumes "cs \<noteq> []"
  shows "\<exists>w rest. sort_by_confidence cs = w # rest \<and> w \<in> set cs
           \<and> (\<forall>x\<in>set cs. cand_conf x \<le> cand_conf w)"
proof -
  let ?s = "sort_by_confidence cs"
  have set_s: "set ?s = set cs" by (simp add: sort_by_confidence_def)
  then have "?s \<noteq> []" using assms by auto
  then obtain w rest where s: "?s = w # rest" by (cases ?s) auto
  have "sorted (map (\<lambda>c. - cand_conf c) ?s)"
    unfolding sort_by_confidence_def by (rule sorted_sort_key)
  then have "\<forall>x\<in>set rest. - cand_conf w \<le> - cand_conf x"
    unfolding s by simp
  then have "\<forall>x\<in>set ?s. cand_conf x \<le> cand_conf w"
    unfolding s by auto
  then have "\<forall>x\<in>set cs. cand_conf x \<le> cand_conf w"
    using set_s by simp
  moreover have "w \<in> set cs" using set_s s by auto
  ultimately show ?thesis using s by blast
qed

lemma po_box_texts:
  "lower ''PO Box 28 B1 1TU'' = ''po box 28 b1 1tu''"
  "lower ''Site B12 3CD'' = ''site b12 3cd''"
  "norm ''PO Box 28 B1 1TU'' = ''PO Box 28 B1 1TU''"
  by (simp_all add: lower_def norm_eval re_eval chr_eval)

lemma po_box_searches:
  "re_search True POSTCODE_RE ''PO Box 28 B1 1TU''
     = Some \<lparr>m_start = 10, m_end = 16, m_groups = [(Suc 0, ''B1 1TU'')]\<rparr>"
  "re_search True POSTCODE_RE ''Site B12 3CD''
     = Some \<lparr>m_start = 5, m_end = 12, m_groups = [(Suc 0, ''B12 3CD'')]\<rparr>"
  by (simp_all add: POSTCODE_RE_def postcode_pattern_def re_eval chr_eval)

lemma po_box_site_candidate:
  "postcode_candidate po_box_blocks (Suc 0, content_block ''Site B12 3CD'')
     = Some (''B12 3CD'', content_block ''Site B12 3CD'', 0.7, Suc 0)"
proof -
  have u: "upper ''B12 3CD'' = ''B12 3CD''" by (simp add: upper_def chr_eval)
  have c: "\<not> is_council_contact ''Site B12 3CD''"
    by (simp add: is_council_contact_def po_box_texts)
  have sec: "\<not> is_in_site_location_section po_box_blocks (Suc 0)"
    by (simp add: is_in_site_location_section_def po_box_blocks_def content_block_def block_text_def
        po_box_texts)
  show ?thesis
    by (simp add: postcode_candidate_def content_block_def block_text_def po_box_searches group_def
        u c sec po_box_texts Let_def)
qed


section \<open>What a match of a pattern consumes; the demolition pattern\<close>

lemma rep_greedy_cont:
  assumes "rep_greedy ic cs lo hi p s k = Some x"
  shows "\<exists>p' s'. k p' s' = Some x \<and> length s' \<le> length s \<and> (0 < lo \<longrightarrow> length s' < length s)"
  using assms
proof (induction s arbitrary: lo hi p)
  case Nil
  then show ?case by (auto split: if_splits)
next
  case (Cons c s)
  show ?case
  proof (cases "rep_greedy ic cs (lo - 1) (hi_dec hi) (Some c) s k = Some x \<and> hi_open hi \<and> in_cset ic cs c")
    case True
    from Cons.IH[of "lo - 1" "hi_dec hi" "Some c"] True
    obtain p' s' where "k p' s' = Some x" "length s' \<le> length s" by blast
    then show ?thesis by force
  next
    case False
    with Cons.prems have "lo = 0 \<and> k p (c # s) = Some x"
      by (auto split: if_splits option.splits)
    then show ?thesis by force
  qed
qed

lemma rep_lazy_cont:
  assumes "rep_lazy ic cs lo hi p s k = Some x"
  shows "\<exists>p' s'. k p' s' = Some x \<and> length s' \<le> length s \<and> (0 < lo \<longrightarrow> length s' < length s)"
  using assms
proof (induction s arbitrary: lo hi p)
  case Nil
  then show ?case by (auto split: if_splits)
next
  case (Cons c s)
  show ?case
  proof (cases "lo = 0 \<and> k p (c # s) = Some x")
    case True
    then show ?thesis by force
  next
    case False
    with Cons.prems have "rep_lazy ic cs (lo - 1) (hi_dec hi) (Some c) s k = Some x"
      by (auto split: if_splits option.splits)
    from Cons.IH[OF this]
    obtain p' s' where "k p' s' = Some x" "length s' \<le> length s" by blast
    then show ?thesis by force
  qed
qed

lemma groupless_cont:
  assumes "groupless r" "rmatch ic r p s g k = Some x"
  shows "\<exists>p' s'. k p' s' g = Some x \<and> length s' \<le> length s"
  using assms
proof (induction r arbitrary: p s k)
  case (One cs)
  then obtain c s1 where "s = c # s1" "k (Some c) s1 g = Some x"
    by (auto split: list.splits if_splits)
  then show ?case
    by (intro exI[of _ "Some c"] exI[of _ s1]) simp
next
  case (Rep cs lo hi greedy)
  show ?case
  proof (cases greedy)
    case True
    with Rep.prems have "rep_greedy ic cs lo hi p s (\<lambda>p' s'. k p' s' g) = Some x" by simp
    from rep_greedy_cont[OF this] show ?thesis by blast
  next
    case False
    with Rep.prems have "rep_lazy ic cs lo hi p s (\<lambda>p' s'. k p' s' g) = Some x" by simp
    from rep_lazy_cont[OF this] show ?thesis by blast
  qed
next
  case (Seq a b)
  from Seq.prems have ga: "groupless a" and gb: "groupless b"
    and m: "rmatch ic a p s g (\<lambda>p' s' g'. rmatch ic b p' s' g' k) = Some x"
    by simp_all
  from Seq.IH(1)[OF ga m] obtain p1 s1 where
    1: "rmatch ic b p1 s1 g k = Some x" and l1: "length s1 \<le> length s" by blast
  from Seq.IH(2)[OF gb 1] obtain p2 s2 where
    "k p2 s2 g = Some x" "length s2 \<le> length s1" by blast
  with l1 show ?case by (meson order_trans)
next
  case (Alt a b)
  then show ?case by (auto split: option.splits)
next
  case (Grp n r)
  then show ?case by simp
next
  case WordB
  then show ?case by (auto split: if_splits)
next
  case Bol
  then show ?case by (auto split: if_splits)
next
  case Eol
  then show ?case by (auto split: if_splits)
next
  case Eps
  then show ?case by auto
qed

lemma lit_Cons: "lit (a # k) = Seq (One (Set [Ch a])) (lit k)"
  by (simp add: lit_def)

lemma lit_cont:
  assumes "rmatch ic (lit w) p s g k = Some x"
  shows "\<exists>u s' p'. s = u @ s' \<and> list_all2 (\<lambda>a c. in_citem ic (Ch a) c) w u \<and> k p' s' g = Some x"
  using assms
proof (induction w arbitrary: p s)
  case Nil
  then show ?case by (auto simp: lit_def)
next
  case (Cons a w)
  from Cons.prems obtain c s1 where s: "s = c # s1" and c: "in_citem ic (Ch a) c"
    and m: "rmatch ic (lit w) (Some c) s1 g k = Some x"
    unfolding lit_Cons by (auto split: list.splits if_splits)
  from Cons.IH[OF m] obtain u s' p' where
    "s1 = u @ s'" "list_all2 (\<lambda>a c. in_citem ic (Ch a) c) w u" "k p' s' g = Some x" by blast
  with s c show ?case
    by (intro exI[of _ "c # u"] exI[of _ s'] exI[of _ p']) simp
qed

lemma search_from_match:
  assumes "search_from ic r p s i = Some m"
  shows "\<exists>pre suf p' n. s = pre @ suf \<and> match_here ic r p' suf = Some (n, m_groups m)"
  using assms
proof (induction s arbitrary: p i)
  case Nil
  then obtain n where "match_here ic r p [] = Some (n, m_groups m)"
    by (auto split: option.splits)
  then show ?case
    by (intro exI[of _ "[]"] exI[of _ "[]"] exI[of _ p] exI[of _ n]) simp
next
  case (Cons c s)
  show ?case
  proof (cases "match_here ic r p (c # s)")
    case None
    with Cons.prems have "search_from ic r (Some c) s (Suc i) = Some m" by simp
    from Cons.IH[OF this] obtain pre suf p' n where
      "s = pre @ suf" "match_here ic r p' suf = Some (n, m_groups m)" by blast
    then show ?thesis
      by (intro exI[of _ "c # pre"] exI[of _ suf] exI[of _ p'] exI[of _ n]) simp
  next
    case (Some ng)
    with Cons.prems have "match_here ic r p (c # s) = Some (fst ng, m_groups m)"
      by (cases ng) auto
    then show ?thesis
      by (intro exI[of _ "[]"] exI[of _ "c # s"] exI[of _ p] exI[of _ "fst ng"]) simp
  qed
qed

lemma seq_groupless_cont:
  assumes "groupless a" "rmatch ic (Seq a b) p s g k = Some x"
  shows "\<exists>p' s'. rmatch ic b p' s' g k = Some x \<and> length s' \<le> length s"
proof -
  from assms(2) have "rmatch ic a p s g (\<lambda>p' s' g'. rmatch ic b p' s' g' k) = Some x" by simp
  from groupless_cont[OF assms(1) this] show ?thesis .
qed

lemma seq_lit_cont:
  assumes "rmatch ic (Seq (lit w) b) p s g k = Some x"
  shows "\<exists>u s' p'. s = u @ s' \<and> list_all2 (\<lambda>a c. in_citem ic (Ch a) c) w u
           \<and> rmatch ic b p' s' g k = Some x"
proof -
  from assms have "rmatch ic (lit w) p s g (\<lambda>p' s' g'. rmatch ic b p' s' g' k) = Some x" by simp
  from lit_cont[OF this] show ?thesis .
qed

lemma grp_cont:
  assumes "groupless r" "rmatch ic (Grp n r) p s g k = Some x"
  shows "\<exists>p' s'. k p' s' ((n, take (length s - length s') s) # g) = Some x \<and> length s' \<le> length s"
proof -
  from assms(2)
  have "rmatch ic r p s g (\<lambda>p' s' g'. k p' s' ((n, take (length s - length s') s) # g')) = Some x"
    by simp
  from groupless_cont[OF assms(1) this] show ?thesis .
qed

lemma postcode_pattern_consumes:
  assumes "rmatch ic postcode_pattern p s g k = Some x"
  shows "\<exists>p' s'. k p' s' g = Some x \<and> length s' < length s"
proof -
  define rest where "rest = seqs [One digit,
     Rep (Set [Rng CHR ''A'' CHR ''Z'', CDigit]) 0 (Some 1) True,
     Rep space 0 None True, One digit, Rep AZ 2 (Some 2) True]"
  have pp: "postcode_pattern = Seq (Rep AZ 1 (Some 2) True) rest"
    by (simp add: postcode_pattern_def rest_def seqs_def)
  have gl: "groupless rest" by (simp add: rest_def seqs_def)
  from assms have "rep_greedy ic AZ 1 (Some 2) p s (\<lambda>p' s'. rmatch ic rest p' s' g k) = Some x"
    unfolding pp by simp
  from rep_greedy_cont[OF this] obtain p1 s1 where
    1: "rmatch ic rest p1 s1 g k = Some x" and l1: "length s1 < length s" by auto
  from groupless_cont[OF gl 1] obtain p2 s2 where
    "k p2 s2 g = Some x" "length s2 \<le> length s1" by blast
  with l1 show ?thesis by (meson le_less_trans)
qed

lemma demolition_match:
  assumes "re_search True DEMOLITION_RE t = Some m"
  shows "\<exists>g1 g2. m_groups m = [(2, g2), (1, g1)] \<and> g2 \<noteq> []"
proof -
  define K :: "string \<Rightarrow> char option \<Rightarrow> string \<Rightarrow> groups \<Rightarrow> (nat \<times> groups) option"
    where "K = (\<lambda>s0 p' s' g. Some (length s0 - length s', g))"
  define tail where "tail = Seq (Seq (Rep space 1 None True) (Seq (Grp 2 postcode_pattern) Eps)) Eps"
  define r4 where "r4 = Seq (Grp 1 (Rep Dot 1 None False)) tail"
  define r3 where "r3 = Seq (Rep space 1 None True) r4"
  define r2 where "r2 = Seq (lit ''of'') r3"
  define r1 where "r1 = Seq (Rep space 1 None True) r2"
  have re: "DEMOLITION_RE = Seq (lit ''demolition'') r1"
    by (simp add: DEMOLITION_RE_def seqs_def r1_def r2_def r3_def r4_def tail_def)
  from assms have "search_from True DEMOLITION_RE None t 0 = Some m"
    by (simp add: re_search_def)
  from search_from_match[OF this] obtain pre suf p0 n where t: "t = pre @ suf"
    and mh: "match_here True DEMOLITION_RE p0 suf = Some (n, m_groups m)"
    by blast
  from mh have 0: "rmatch True (Seq (lit ''demolition'') r1) p0 suf [] (K suf) = Some (n, m_groups m)"
    by (simp add: match_here_def re K_def)
  from seq_lit_cont[OF 0] obtain s1 p1 where
    1: "rmatch True r1 p1 s1 [] (K suf) = Some (n, m_groups m)" by blast
  from seq_groupless_cont[OF _ 1[unfolded r1_def]] obtain p2 s2 where
    2: "rmatch True r2 p2 s2 [] (K suf) = Some (n, m_groups m)" by auto
  from seq_lit_cont[OF 2[unfolded r2_def]] obtain p3 s3 where
    3: "rmatch True r3 p3 s3 [] (K suf) = Some (n, m_groups m)" by blast
  from seq_groupless_cont[OF _ 3[unfolded r3_def]] obtain p4 s4 where
    4: "rmatch True r4 p4 s4 [] (K suf) = Some (n, m_groups m)" by auto
  from 4 have "rmatch True (Grp 1 (Rep Dot 1 None False)) p4 s4 []
                 (\<lambda>p' s' g'. rmatch True tail p' s' g' (K suf)) = Some (n, m_groups m)"
    by (simp add: r4_def)
  from grp_cont[OF _ this] obtain p5 s5 g1 where
    5: "rmatch True tail p5 s5 [(1, g1)] (K suf) = Some (n, m_groups m)" by auto
  from 5 have "rmatch True (Seq (Rep space 1 None True) (Seq (Grp 2 postcode_pattern) Eps)) p5 s5
                 [(1, g1)] (K suf) = Some (n, m_groups m)"
    by (simp add: tail_def)
  from seq_groupless_cont[OF _ this] obtain p6 s6 where
    "rmatch True (Seq (Grp 2 postcode_pattern) Eps) p6 s6 [(1, g1)] (K suf) = Some (n, m_groups m)"
    by auto
  then have "rmatch True postcode_pattern p6 s6 [(1, g1)]
               (\<lambda>p' s' g'. K suf p' s' ((2, take (length s6 - length s') s6) # g'))
             = Some (n, m_groups m)"
    by simp
  from postcode_pattern_consumes[OF this] obtain p7 s7 where
    7: "K suf p7 s7 [(2, take (length s6 - length s7) s6), (1, g1)] = Some (n, m_groups m)"
    and l: "length s7 < length s6" by blast
  from 7 have "m_groups m = [(2, take (length s6 - length s7) s6), (1, g1)]"
    by (simp add: K_def)
  moreover from l have "take (length s6 - length s7) s6 \<noteq> []" by auto
  ultimately show ?thesis by blast
qed

lemma demolition_address_of_match:
  assumes "re_search True DEMOLITION_RE t = Some m"
  shows "demolition_address m = address_part_of m @ '', '' @ upper (group 2 m)"
proof -
  from demolition_match[OF assms] obtain g1 g2 where
    g: "m_groups m = [(2, g2), (1, g1)]" and ne: "g2 \<noteq> []" by blast
  then show ?thesis
    by (simp add: demolition_address_def lastindex_def group_def upper_def Let_def)
qed

lemma first_some_None_iff: "first_some f xs = None \<longleftrightarrow> (\<forall>x\<in>set xs. f x = None)"
  by (induction xs) (auto split: option.splits)

lemma startswith_prefix: "startswith (k @ k') s \<Longrightarrow> startswith k s"
  by (induction k s rule: startswith.induct) (auto split: if_splits)

lemma substr_in_prefix: "substr_in (k @ k') s \<Longrightarrow> substr_in k s"
proof (induction s)
  case Nil
  then show ?case by simp
next
  case (Cons c s)
  then show ?case
    using startswith_prefix[of k k' "c # s"] by (auto split: if_splits)
qed

lemma demolition_guard:
  "(substr_in ''demolition of'' t \<or> substr_in ''demolition'' t) \<longleftrightarrow> substr_in ''demolition'' t"
  using substr_in_prefix[of "''demolition''" "'' of''" t] by auto

lemma demolition_hit_guarded:
  "demolition_hit b \<noteq> None \<longleftrightarrow>
     substr_in ''demolition'' (lower (norm (block_text b)))
     \<and> (\<exists>m. re_search True DEMOLITION_RE (norm (block_text b)) = Some m
          \<and> 10 < length (address_part_of m @ '', '' @ upper (group 2 m)))"
proof (cases "re_search True DEMOLITION_RE (norm (block_text b))")
  case None
  then show ?thesis by (simp add: demolition_hit_def Let_def)
next
  case (Some m)
  from demolition_address_of_match[OF Some] Some
  show ?thesis by (simp add: demolition_hit_def Let_def demolition_guard)
qed

lemma demolition_texts:
  "norm ''demolition of Unit M B8 1BG'' = ''demolition of Unit M B8 1BG''"
  "lower ''demolition of Unit M B8 1BG'' = ''demolition of unit m b8 1bg''"
  "norm ''demolition of Unit M, Dorset Road, B8 1BG'' = ''demolition of Unit M, Dorset Road, B8 1BG''"
  "lower ''demolition of Unit M, Dorset Road, B8 1BG'' = ''demolition of unit m, dorset road, b8 1bg''"
  by (simp_all add: norm_eval lower_def re_eval chr_eval)

lemma short_demolition_guard:
  "substr_in ''demolition''
     (lower (norm (block_text (content_block ''demolition of Unit M B8 1BG''))))"
  by (simp add: content_block_def block_text_def demolition_texts)

lemma road_demolition_guard:
  "substr_in ''demolition''
     (lower (norm (block_text (content_block ''demolition of Unit M, Dorset Road, B8 1BG''))))"
  by (simp add: content_block_def block_text_def demolition_texts)

lemma short_demolition_search:
  "re_search True DEMOLITION_RE (norm (block_text (content_block ''demolition of Unit M B8 1BG'')))
     = Some short_demolition_match"
proof -
  have n: "norm ''demolition of Unit M B8 1BG'' = ''demolition of Unit M B8 1BG''"
    by (simp add: norm_eval re_eval chr_eval)
  have "re_search True DEMOLITION_RE ''demolition of Unit M B8 1BG'' = Some short_demolition_match"
    by (simp add: short_demolition_match_def DEMOLITION_RE_def postcode_pattern_def re_eval chr_eval)
  then show ?thesis
    by (simp add: content_block_def block_text_def n)
qed

lemma short_demolition_parts:
  "address_part_of short_demolition_match = ''Unit M''"
  "upper (group 2 short_demolition_match) = ''B8 1BG''"
  by (simp_all add: address_part_of_def short_demolition_match_def group_def strip_def upper_def
      TRAILING_COMMA_def re_sub_def sub_from.simps re_eval chr_eval)

lemma road_demolition_search:
  "re_search True DEMOLITION_RE (norm (block_text (content_block ''demolition of Unit M, Dorset Road, B8 1BG'')))
     = Some road_demolition_match"
proof -
  have n: "norm ''demolition of Unit M, Dorset Road, B8 1BG'' = ''demolition of Unit M, Dorset Road, B8 1BG''"
    by (simp add: norm_eval re_eval chr_eval)
  have "re_search True DEMOLITION_RE ''demolition of Unit M, Dorset Road, B8 1BG''
          = Some road_demolition_match"
    by (simp add: road_demolition_match_def DEMOLITION_RE_def postcode_pattern_def re_eval chr_eval)
  then show ?thesis
    by (simp add: content_block_def block_text_def n)
qed

lemma road_demolition_parts:
  "address_part_of road_demolition_match = ''Unit M, Dorset Road''"
  "upper (group 2 road_demolition_match) = ''B8 1BG''"
  by (simp_all add: address_part_of_def road_demolition_match_def group_def strip_def upper_def
      TRAILING_COMMA_def re_sub_def sub_from.simps re_eval chr_eval)

lemma short_demolition_result:
  "extract_address_from_demolition_pattern short_demolition_blocks
     = Some (''Unit M, B8 1BG'', content_block ''demolition of Unit M B8 1BG'', 0.85)"
proof -
  note guard = short_demolition_guard
  have "demolition_address short_demolition_match = ''Unit M, B8 1BG''"
    by (simp add: demolition_address_of_match[OF short_demolition_search] short_demolition_parts)
  then have "demolition_hit (content_block ''demolition of Unit M B8 1BG'') = Some ''Unit M, B8 1BG''"
    using guard by (simp add: demolition_hit_def short_demolition_search Let_def)
  then show ?thesis
    by (simp add: extract_address_from_demolition_pattern_def short_demolition_blocks_def)
qed


section \<open>Strategies that read only the leading blocks\<close>






















section \<open>Blocks on which no strategy fires\<close>





lemma first_index_None_iff: "first_index P xs = None \<longleftrightarrow> (\<forall>x\<in>set xs. \<not> P x)"
  by (induction xs) auto










section \<open>A label beyond the 400th block\<close>







section \<open>The e-mail strategy and its context window\<close>






section \<open>A context word beyond the 400th block\<close>












section \<open>The claims\<close>

text \<open>
  Claim C4. Within one run of \<open>map_fields\<close> every key of the returned fields mapping is
  written at most once: the list of the assignments made on the dict, in the order they
  were made, names no key twice, so no strategy overwrites a field or its confidence
  entry that an earlier one has set.
\<close>

theorem fields_written_at_most_once:
  "distinct (map fst (res_fields (map_fields extracted_layout)))"
  by (rule wf_distinct_keys[OF wf_map_fields])

text \<open>
  Claim C10. Every populated field \<open>f\<close> other than \<open>document_type\<close> (a key of the fields
  mapping that is not a confidence key) has its parallel key \<open>f_confidence\<close>, and
  \<open>evidence_index[f]\<close> is a list of exactly one entry whose confidence is
  \<open>fields[f_confidence]\<close>; \<open>document_type\<close> has neither a confidence key nor an evidence
  entry.
\<close>

theorem populated_field_has_confidence_and_evidence:
  "(\<forall>f. has_key f (res_fields (map_fields extracted_layout)) \<and> f \<noteq> ''document_type''
         \<and> \<not> endswith ''_confidence'' f
       \<longrightarrow> (\<exists>e. get_item (res_fields (map_fields extracted_layout)) (f @ ''_confidence'')
                    = Some (Num (ev_confidence e))
                \<and> map_of (res_evidence_index (map_fields extracted_layout)) f = Some [e]))
   \<and> \<not> has_key ''document_type_confidence'' (res_fields (map_fields extracted_layout))
   \<and> map_of (res_evidence_index (map_fields extracted_layout)) ''document_type'' = None"
  using wf_populated[OF wf_map_fields] wf_document_type[OF wf_map_fields] by blast

theorem populated_field_has_confidence_and_evidence_witness:
  "has_key ''application_ref'' (res_fields (map_fields ref_layout))
   \<and> ''application_ref'' \<noteq> ''document_type''
   \<and> \<not> endswith ''_confidence'' ''application_ref''
   \<and> (\<exists>e. get_item (res_fields (map_fields ref_layout)) (''application_ref'' @ ''_confidence'')
               = Some (Num (ev_confidence e))
            \<and> map_of (res_evidence_index (map_fields ref_layout)) ''application_ref'' = Some [e])"
proof -
  have h: "has_key ''application_ref'' (res_fields (map_fields ref_layout))"
    by (simp add: map_fields_ref ref_result_def has_key_def)
  have n: "''application_ref'' \<noteq> ''document_type''" by simp
  have s: "\<not> endswith ''_confidence'' ''application_ref''" by (simp add: endswith_def)
  from populated_field_has_confidence_and_evidence[of ref_layout] h n s
  have "\<exists>e. get_item (res_fields (map_fields ref_layout)) (''application_ref'' @ ''_confidence'')
               = Some (Num (ev_confidence e))
            \<and> map_of (res_evidence_index (map_fields ref_layout)) ''application_ref'' = Some [e]"
    by blast
  with h n s show ?thesis by blast
qed

text \<open>
  Claim C1. The scenario of the specification: one block whose text is
  \<open>I/We hereby apply for Prior Approval: change of use to a single dwelling\<close>. The
  pattern \<open>:|for\<close> splits the text at its first match, which is the word \<open>for\<close> of
  \<open>apply for\<close> and not the colon, so \<open>proposed_use\<close> is set, with confidence 0.9, to
  \<open>Prior Approval: change of use to a single dwelling\<close> and not to the text after the colon.
\<close>

theorem prior_approval_scenario_keeps_prefix:
  "get_item (res_fields (map_fields (blocks_layout [content_block prior_approval_text])))
      ''proposed_use'' = Some (Str ''Prior Approval: change of use to a single dwelling'')
   \<and> get_item (res_fields (map_fields (blocks_layout [content_block prior_approval_text])))
      ''proposed_use_confidence'' = Some (Num 0.9)"
proof -
  have "first_some prior_approval_hit (take 100 [content_block prior_approval_text])
          = Some (content_block prior_approval_text, prior_approval_text,
                  ''Prior Approval: change of use to a single dwelling'')"
    by (simp add: prior_approval_hit_example)
  from proposed_use_primary_final[OF this] show ?thesis
    unfolding assigned_def map_fields_blocks_layout by simp
qed

text \<open>
  Claim C5. The scenario of the specification: the blocks \<open>Site Location\<close>,
  \<open>Address Line 1: 12 Example Street\<close>, \<open>Postcode: B12 3CD\<close>. The test for address line 2
  asks for the words \<open>address\<close> and \<open>line\<close> and the character \<open>2\<close>, which the house
  number 12 supplies, so the first line is collected a second time as line 2 and
  \<open>site_address\<close> is \<open>12 Example Street, 12 Example Street, B12 3CD\<close>, with confidence 0.95.
\<close>

theorem site_location_scenario_repeats_line:
  "get_item (res_fields (map_fields (blocks_layout site_location_blocks))) ''site_address''
      = Some (Str ''12 Example Street, 12 Example Street, B12 3CD'')
   \<and> get_item (res_fields (map_fields (blocks_layout site_location_blocks)))
      ''site_address_confidence'' = Some (Num 0.95)"
proof -
  have "''12 Example Street, 12 Example Street, B12 3CD'' \<noteq> []" by simp
  from site_address_final[OF pick_example this] show ?thesis
    unfolding assigned_def map_fields_blocks_layout by simp
qed

text \<open>
  Claim C2. The pipeline entry point runs \<open>map_fields\<close> on the blocks as the layout
  analysis returned them and gives every block its index only afterwards. For a block of
  page 1 that arrives without an index the evidence of \<open>application_ref\<close> carries the
  block id \<open>p1b\<close>, while the block it was read from is returned with index 0, whose id is
  \<open>p1b0\<close>.
\<close>

theorem pipeline_maps_before_indexing:
  "extract_from_pdf_bytes ref_layout =
     Inr \<lparr>out_fields = [(''document_type'', Str ''unknown''), (''application_ref'', Str ''PP-12345678''),
                       (''application_ref_confidence'', Num 0.9)],
          out_evidence_index =
            [(''text_block_0'', TextBlockEv ''Ref PP-12345678'' ''Ref PP-12345678'' (Some 1)),
             (''application_ref'', FieldEv
                [\<lparr>ev_page = 1, ev_block_id = ''p1b'', ev_snippet = ''Ref PP-12345678'',
                  ev_confidence = 0.9, ev_source_doc_type = Some ''unknown''\<rparr>])],
          out_text_blocks = [ref_block\<lparr>b_index := Some 0\<rparr>],
          out_tables = []\<rparr>
   \<and> block_id_of (ref_block\<lparr>b_index := Some 0\<rparr>) = ''p1b0''"
  using pipeline_ref block_id_indexed_ref by simp

text \<open>
  Claim C8. For a layout whose \<open>text_blocks\<close> is the empty list, is missing or is \<open>None\<close>,
  \<open>map_fields\<close> returns the fields \<open>{"document_type": "unknown"}\<close> and an empty evidence
  index. No statement of the source can raise on this path: every loop runs over the
  empty list, and the model, a total function, has no error to return.
\<close>

theorem empty_layout_yields_only_document_type:
  "map_fields \<lparr>text_blocks = Value [], tables = tv\<rparr>
     = \<lparr>res_fields = [(''document_type'', Str ''unknown'')], res_evidence_index = []\<rparr>
   \<and> map_fields \<lparr>text_blocks = Missing, tables = tv\<rparr>
     = \<lparr>res_fields = [(''document_type'', Str ''unknown'')], res_evidence_index = []\<rparr>
   \<and> map_fields \<lparr>text_blocks = NoneValue, tables = tv\<rparr>
     = \<lparr>res_fields = [(''document_type'', Str ''unknown'')], res_evidence_index = []\<rparr>"
  by (simp add: map_fields_def map_blocks_empty)

text \<open>
  Claim C3, as the code has it. The classifier keeps the type with the highest score and
  the priority order only breaks ties: a type replaces the running best when its score
  is strictly higher. So a corpus that matches a hint of \<open>application_form\<close> and a hint of
  \<open>drawing\<close> is classified \<open>application_form\<close> whenever no type of the priority list
  matches more hints than \<open>application_form\<close> does.
\<close>

theorem application_form_wins_ties:
  assumes "0 < type_score ''application_form'' (corpus blocks)"
    and "0 < type_score ''drawing'' (corpus blocks)"
    and "\<forall>d\<in>set priority_order.
           type_score d (corpus blocks) \<le> type_score ''application_form'' (corpus blocks)"
  shows "classify_document blocks = ''application_form''"
  unfolding classify_document_def
  by (rule classify_text_application_form[OF assms(1,3)])

theorem application_form_wins_ties_witness:
  "type_score ''application_form'' (corpus tied_vocabulary_blocks) = 1
   \<and> type_score ''drawing'' (corpus tied_vocabulary_blocks) = 1
   \<and> type_score ''site_notice'' (corpus tied_vocabulary_blocks) = 0
   \<and> type_score ''site_plan'' (corpus tied_vocabulary_blocks) = 0
   \<and> type_score ''design_statement'' (corpus tied_vocabulary_blocks) = 0
   \<and> type_score ''heritage'' (corpus tied_vocabulary_blocks) = 0
   \<and> classify_document tied_vocabulary_blocks = ''application_form''"
proof -
  have 1: "0 < type_score ''application_form'' (corpus tied_vocabulary_blocks)"
    and 2: "0 < type_score ''drawing'' (corpus tied_vocabulary_blocks)"
    by (simp_all add: corpus_tied scores_tied)
  have 3: "\<forall>d\<in>set priority_order. type_score d (corpus tied_vocabulary_blocks)
             \<le> type_score ''application_form'' (corpus tied_vocabulary_blocks)"
    by (simp add: priority_order_def corpus_tied scores_tied)
  from application_form_wins_ties[OF 1 2 3] show ?thesis
    by (simp add: corpus_tied scores_tied)
qed


text \<open>
  Claim C3 as stated fails: the corpus \<open>prior approval existing proposed\<close> matches one
  hint of \<open>application_form\<close> and two of \<open>drawing\<close>, and is classified \<open>drawing\<close>.
\<close>

theorem drawing_outscores_application_form:
  "0 < type_score ''application_form'' (corpus mixed_vocabulary_blocks)
   \<and> 0 < type_score ''drawing'' (corpus mixed_vocabulary_blocks)
   \<and> classify_document mixed_vocabulary_blocks = ''drawing''"
  by (simp add: classify_document_def corpus_mixed classify_text_by_scores priority_order_def
      scores_mixed)

text \<open>
  Claim C6. Let block \<open>i\<close> of the first 400 contain the marker \<open>po box\<close> and a match of the
  postcode pattern, and let some candidate have confidence at least 0.3. Then block \<open>i\<close>
  yields a candidate of confidence 0.1, and \<open>map_fields\<close> sets \<open>postcode\<close>, its confidence
  and its evidence from a candidate of another block: one whose confidence is at least
  0.3 and is the highest of all candidates.
\<close>

theorem po_box_postcode_not_selected:
  assumes "i < length blocks" and "i < 400"
    and "substr_in ''po box'' (lower (block_text (blocks ! i)))"
    and "re_search True POSTCODE_RE (block_text (blocks ! i)) \<noteq> None"
    and "c \<in> set (postcode_candidates blocks)" and "0.3 \<le> cand_conf c"
  shows "(\<exists>pc. (pc, blocks ! i, 0.1, i) \<in> set (postcode_candidates blocks))
    \<and> (\<exists>pc b conf idx. (pc, b, conf, idx) \<in> set (postcode_candidates blocks)
          \<and> idx \<noteq> i \<and> 0.3 \<le> conf
          \<and> (\<forall>x\<in>set (postcode_candidates blocks). cand_conf x \<le> conf)
          \<and> assigned (map_fields (blocks_layout blocks)) ''postcode'' pc conf
               (made_entry b (block_text b) conf (classify_document blocks)))"
proof -
  let ?cs = "postcode_candidates blocks"
  from po_box_candidate[OF assms(3,4)]
  obtain pcp where pen: "postcode_candidate blocks (i, blocks ! i) = Some (pcp, blocks ! i, 0.1, i)"
    by blast
  then have penalized: "(pcp, blocks ! i, 0.1, i) \<in> set ?cs"
    using assms(1,2) unfolding candidate_iff by blast
  have ne: "?cs \<noteq> []" using assms(5) by auto
  from sort_by_confidence_head[OF ne]
  obtain w rest where s: "sort_by_confidence ?cs = w # rest" and w: "w \<in> set ?cs"
    and top: "\<forall>x\<in>set ?cs. cand_conf x \<le> cand_conf w"
    by blast
  obtain pc b conf idx where weq: "w = (pc, b, conf, idx)" by (cases w) auto
  have conf: "cand_conf w = conf" by (simp add: weq cand_conf_def)
  have ok: "0.3 \<le> conf" using top assms(5,6) conf by force
  have "idx \<noteq> i"
  proof
    assume "idx = i"
    from w obtain j where j: "j < length blocks" "j < 400"
      "postcode_candidate blocks (j, blocks ! j) = Some w"
      unfolding candidate_iff by blast
    from candidate_shape[OF j(3)] have "j = idx" by (simp add: weq)
    with \<open>idx = i\<close> j(3) pen have "w = (pcp, blocks ! i, 0.1, i)" by simp
    then have "conf = 0.1" by (simp add: weq)
    with ok show False by simp
  qed
  moreover from postcode_final[OF s[unfolded weq] ok]
  have "assigned (map_fields (blocks_layout blocks)) ''postcode'' pc conf
          (made_entry b (block_text b) conf (classify_document blocks))"
    by (simp add: map_fields_blocks_layout)
  ultimately show ?thesis
    using penalized w top ok unfolding weq conf[unfolded weq] by blast
qed

theorem po_box_postcode_not_selected_witness:
  "(0::nat) < length po_box_blocks \<and> (0::nat) < 400
   \<and> substr_in ''po box'' (lower (block_text (po_box_blocks ! 0)))
   \<and> re_search True POSTCODE_RE (block_text (po_box_blocks ! 0)) \<noteq> None
   \<and> (''B12 3CD'', content_block ''Site B12 3CD'', 0.7, 1) \<in> set (postcode_candidates po_box_blocks)
   \<and> 0.3 \<le> cand_conf (''B12 3CD'', content_block ''Site B12 3CD'', 0.7, 1)
   \<and> (\<exists>pc. (pc, po_box_blocks ! 0, 0.1, 0) \<in> set (postcode_candidates po_box_blocks))
   \<and> (\<exists>pc b conf idx. (pc, b, conf, idx) \<in> set (postcode_candidates po_box_blocks)
          \<and> idx \<noteq> 0 \<and> 0.3 \<le> conf
          \<and> (\<forall>x\<in>set (postcode_candidates po_box_blocks). cand_conf x \<le> conf)
          \<and> assigned (map_fields (blocks_layout po_box_blocks)) ''postcode'' pc conf
               (made_entry b (block_text b) conf (classify_document po_box_blocks)))"
proof -
  have h1: "(0::nat) < length po_box_blocks" and h2: "(0::nat) < 400"
    by (simp_all add: po_box_blocks_def)
  have b0: "block_text (po_box_blocks ! 0) = ''PO Box 28 B1 1TU''"
    by (simp add: po_box_blocks_def content_block_def block_text_def)
  have h3: "substr_in ''po box'' (lower (block_text (po_box_blocks ! 0)))"
    by (simp add: b0 po_box_texts)
  have h4: "re_search True POSTCODE_RE (block_text (po_box_blocks ! 0)) \<noteq> None"
    by (simp add: b0 po_box_searches)
  have "postcode_candidate po_box_blocks (1, po_box_blocks ! 1)
          = Some (''B12 3CD'', content_block ''Site B12 3CD'', 0.7, 1)"
    using po_box_site_candidate by (simp add: po_box_blocks_def)
  moreover have "(1::nat) < length po_box_blocks" "(1::nat) < 400"
    by (simp_all add: po_box_blocks_def)
  ultimately have h5: "(''B12 3CD'', content_block ''Site B12 3CD'', 0.7, 1)
      \<in> set (postcode_candidates po_box_blocks)"
    unfolding candidate_iff by blast
  have h6: "0.3 \<le> cand_conf (''B12 3CD'', content_block ''Site B12 3CD'', 0.7, 1)"
    by (simp add: cand_conf_def)
  from po_box_postcode_not_selected[OF h1 h2 h3 h4 h5 h6] h1 h2 h3 h4 h5 h6
  show ?thesis by blast
qed

text \<open>
  Claim C7, as the code has it. The extractor returns a result exactly when one of the
  first 100 blocks passes three tests: its normalized, lower-cased text contains
  \<open>demolition\<close>; the demolition pattern matches its normalized text; and the full
  address built from the match is longer than 10 characters. The full address is the
  captured text, stripped and with a trailing comma removed, followed by a comma, a
  space and the upper-cased postcode. The length test is made on this full address, not
  on the captured text. A result always has confidence 0.85. The test on the lower-cased
  text is part of the condition: the pattern is matched ignoring case on the text as
  written, and for letters outside Latin-1 (the dotless i, U+0131, matches \<open>i\<close>
  when case is ignored but is not lower-cased to it) a match does not imply that test.
\<close>

theorem demolition_result_iff:
  "(extract_address_from_demolition_pattern blocks \<noteq> None \<longleftrightarrow>
      (\<exists>b\<in>set (take 100 blocks).
          substr_in ''demolition'' (lower (norm (block_text b)))
          \<and> (\<exists>m. re_search True DEMOLITION_RE (norm (block_text b)) = Some m
                \<and> 10 < length (address_part_of m @ '', '' @ upper (group 2 m)))))
   \<and> (\<forall>a b c. extract_address_from_demolition_pattern blocks = Some (a, b, c) \<longrightarrow> c = 0.85)"
proof -
  have "extract_address_from_demolition_pattern blocks \<noteq> None
          \<longleftrightarrow> first_some demolition_hit (take 100 blocks) \<noteq> None"
    unfolding extract_address_from_demolition_pattern_def
    by (cases "first_some demolition_hit (take 100 blocks)") (simp_all add: case_prod_beta)
  also have "\<dots> \<longleftrightarrow> (\<exists>b\<in>set (take 100 blocks). demolition_hit b \<noteq> None)"
    by (simp add: first_some_None_iff)
  finally have 1: "extract_address_from_demolition_pattern blocks \<noteq> None \<longleftrightarrow>
      (\<exists>b\<in>set (take 100 blocks).
          substr_in ''demolition'' (lower (norm (block_text b)))
          \<and> (\<exists>m. re_search True DEMOLITION_RE (norm (block_text b)) = Some m
                \<and> 10 < length (address_part_of m @ '', '' @ upper (group 2 m))))"
    unfolding demolition_hit_guarded .
  have "c = 0.85" if "extract_address_from_demolition_pattern blocks = Some (a, b, c)" for a b c
    using that unfolding extract_address_from_demolition_pattern_def
    by (cases "first_some demolition_hit (take 100 blocks)") auto
  then have 2: "\<forall>a b c. extract_address_from_demolition_pattern blocks = Some (a, b, c) \<longrightarrow> c = 0.85"
    by blast
  from 1 2 show ?thesis by blast
qed

theorem demolition_result_iff_witness:
  "substr_in ''demolition''
     (lower (norm (block_text (content_block ''demolition of Unit M, Dorset Road, B8 1BG''))))
   \<and> (\<exists>m. re_search True DEMOLITION_RE
           (norm (block_text (content_block ''demolition of Unit M, Dorset Road, B8 1BG''))) = Some m
        \<and> 10 < length (address_part_of m @ '', '' @ upper (group 2 m)))
   \<and> (\<exists>a b. extract_address_from_demolition_pattern road_demolition_blocks = Some (a, b, 0.85))"
proof -
  have len: "10 < length (address_part_of road_demolition_match @ '', ''
                @ upper (group 2 road_demolition_match))"
    by (simp add: road_demolition_parts)
  with road_demolition_search
  have ex: "\<exists>m. re_search True DEMOLITION_RE
           (norm (block_text (content_block ''demolition of Unit M, Dorset Road, B8 1BG''))) = Some m
        \<and> 10 < length (address_part_of m @ '', '' @ upper (group 2 m))"
    by blast
  note iff = demolition_result_iff[of road_demolition_blocks]
  have "content_block ''demolition of Unit M, Dorset Road, B8 1BG'' \<in> set (take 100 road_demolition_blocks)"
    by (simp add: road_demolition_blocks_def)
  with ex road_demolition_guard iff
  have "extract_address_from_demolition_pattern road_demolition_blocks \<noteq> None"
    by blast
  then obtain a b c where r: "extract_address_from_demolition_pattern road_demolition_blocks = Some (a, b, c)"
    by (cases "extract_address_from_demolition_pattern road_demolition_blocks") auto
  with iff have "c = 0.85" by blast
  with r ex road_demolition_guard show ?thesis by blast
qed


text \<open>
  Claim C7 as stated fails: for the block \<open>demolition of Unit M B8 1BG\<close> the captured
  address text is \<open>Unit M\<close>, six characters, and the extractor still returns
  \<open>Unit M, B8 1BG\<close>.
\<close>

theorem short_address_is_accepted:
  "extract_address_from_demolition_pattern short_demolition_blocks
     = Some (''Unit M, B8 1BG'', content_block ''demolition of Unit M B8 1BG'', 0.85)
   \<and> re_search True DEMOLITION_RE (norm (block_text (content_block ''demolition of Unit M B8 1BG'')))
       = Some short_demolition_match
   \<and> address_part_of short_demolition_match = ''Unit M''
   \<and> \<not> 10 < length (address_part_of short_demolition_match)"
  by (simp add: short_demolition_result short_demolition_search short_demolition_parts)




end
